theory Spec2Isabelle
  imports Main "HOL-Library.AList" "HOL-Library.Char_ord" "HOL-Library.List_Lexorder"
    "HOL-Library.Sublist" "HOL-Library.Multiset"
begin

section \<open>The workspace file server (src/server.py)\<close>

text \<open>
  The server exposes file operations on a workspace directory. Every operation joins the
  global \<open>WORKSPACE\<close> (an absolute path) with a caller-supplied string and hands the
  result to the operating system. The model below has three layers:
  \<^item> Python string functions (\<open>str.split\<close>, \<open>str.lower\<close>, \<open>str.count\<close>, ...),
  \<^item> the POSIX file system as a tree, with the path-name resolution of the kernel and the
    functions of \<open>os\<close>, \<open>os.path\<close> and \<open>shutil\<close> that the server calls,
  \<^item> the operations of server.py, each returning its result (or the exception it raises)
    together with the file system it leaves behind.

  Scope of the model: a POSIX system (\<open>os.path\<close> is \<open>posixpath\<close>, two leading slashes
  name the root as on Linux), one thread, no symbolic links or special files (no operation
  of the server creates one), no permission bits. A Python \<open>str\<close> is a \<open>string\<close>, so its
  characters are those with a code below 256. The limits of the system on names (no NUL
  character, at most \<open>NAME_MAX\<close> bytes in a component, fewer than \<open>PATH_MAX\<close> bytes in a
  path) are modelled where an entry is created; looking up an existing entry through a path
  string of \<open>PATH_MAX\<close> bytes or more is outside the model.
\<close>

subsection \<open>Python strings\<close>

definition startswith :: "string \<Rightarrow> string \<Rightarrow> bool" where
  "startswith s p = (take (length p) s = p)"

definition endswith :: "string \<Rightarrow> string \<Rightarrow> bool" where
  "endswith s p = (length p \<le> length s \<and> drop (length s - length p) s = p)"

text \<open>\<open>s.lstrip(c)\<close> and \<open>s.rstrip(c)\<close> for a single character \<open>c\<close>.\<close>

definition lstrip :: "char \<Rightarrow> string \<Rightarrow> string" where
  "lstrip c s = dropWhile (\<lambda>x. x = c) s"

definition rstrip :: "char \<Rightarrow> string \<Rightarrow> string" where
  "rstrip c s = rev (dropWhile (\<lambda>x. x = c) (rev s))"

text \<open>\<open>s.split('/')\<close>: one more field than there are separators.\<close>

fun split_sep :: "string \<Rightarrow> string list" where
  "split_sep [] = [[]]"
| "split_sep (c # cs) =
     (if c = CHR ''/'' then [] # split_sep cs
      else (case split_sep cs of [] \<Rightarrow> [[c]] | x # xs \<Rightarrow> (c # x) # xs))"

text \<open>\<open>'/'.join(comps)\<close>.\<close>

fun join_sep :: "string list \<Rightarrow> string" where
  "join_sep [] = []"
| "join_sep [x] = x"
| "join_sep (x # y # ys) = x @ CHR ''/'' # join_sep (y # ys)"

text \<open>
  \<open>str.lower\<close> on the characters below 256: the capitals are the ASCII letters \<open>A\<close> to
  \<open>Z\<close> and the Latin-1 letters U+00C0 to U+00DE without the multiplication sign U+00D7; the
  lower-case letter of each lies 32 code points above it. Every other character below 256
  is its own lower case, also U+00DF and U+00B5.
\<close>

definition lower_char :: "char \<Rightarrow> char" where
  "lower_char c =
     (if (CHR ''A'' \<le> c \<and> c \<le> CHR ''Z'')
         \<or> (CHR 0xC0 \<le> c \<and> c \<le> CHR 0xDE \<and> c \<noteq> CHR 0xD7)
      then char_of (of_char c + (32 :: nat)) else c)"

definition lower :: "string \<Rightarrow> string" where
  "lower s = map lower_char s"

text \<open>\<open>sub in s\<close>.\<close>

fun contains :: "string \<Rightarrow> string \<Rightarrow> bool" where
  "contains [] sub = (sub = [])"
| "contains (c # cs) sub = (prefix sub (c # cs) \<or> contains cs sub)"

text \<open>
  \<open>s.count(sub)\<close>: the number of non-overlapping occurrences, scanning from the left;
  for the empty \<open>sub\<close> Python returns \<open>len(s) + 1\<close>.
\<close>

fun count_from :: "string \<Rightarrow> string \<Rightarrow> nat" where
  "count_from [] sub = 0"
| "count_from (c # cs) sub =
     (if prefix sub (c # cs) then Suc (count_from (drop (length sub - 1) cs) sub)
      else count_from cs sub)"

definition count_str :: "string \<Rightarrow> string \<Rightarrow> nat" where
  "count_str s sub = (if sub = [] then length s + 1 else count_from s sub)"

text \<open>
  Reading a file opened with \<open>open(path, "r")\<close> (text mode, \<open>newline=None\<close>): universal
  newlines, every \<open>\r\n\<close> and every lone \<open>\r\<close> arrives as \<open>\n\<close>. Writing in text mode on POSIX
  changes nothing (\<open>os.linesep\<close> is \<open>\n\<close>).
\<close>

fun universal_newlines :: "string \<Rightarrow> string" where
  "universal_newlines [] = []"
| "universal_newlines [c] = (if c = CHR 0x0D then [CHR 0x0A] else [c])"
| "universal_newlines (c # d # ds) =
     (if c = CHR 0x0D \<and> d = CHR 0x0A then CHR 0x0A # universal_newlines ds
      else if c = CHR 0x0D then CHR 0x0A # universal_newlines (d # ds)
      else c # universal_newlines (d # ds))"

subsection \<open>posixpath\<close>

text \<open>\<open>os.path.join(a, b)\<close>.\<close>

definition path_join :: "string \<Rightarrow> string \<Rightarrow> string" where
  "path_join a b =
     (if startswith b ''/'' then b
      else if a = [] \<or> endswith a ''/'' then a @ b
      else a @ ''/'' @ b)"

text \<open>
  \<open>os.path.split(p)\<close>: the tail is what follows the last slash; the head is the rest, with
  its trailing slashes removed unless it consists of slashes only.
\<close>

definition path_split :: "string \<Rightarrow> string \<times> string" where
  "path_split p =
     (let tl_part = last (split_sep p);
          hd_part = take (length p - length tl_part) p
      in (if hd_part \<noteq> [] \<and> hd_part \<noteq> replicate (length hd_part) CHR ''/''
          then rstrip CHR ''/'' hd_part else hd_part, tl_part))"

definition dirname :: "string \<Rightarrow> string" where
  "dirname p = fst (path_split p)"

text \<open>
  \<open>os.path.normpath(path)\<close>. One loop step of its component scan; \<open>slashes\<close> is
  \<open>initial_slashes\<close>. POSIX lets a path of exactly two leading slashes mean something of its
  own, so normpath keeps two leading slashes and collapses three or more to one.
\<close>

definition norm_step :: "nat \<Rightarrow> string list \<Rightarrow> string \<Rightarrow> string list" where
  "norm_step slashes new_comps c =
     (if c = [] \<or> c = ''.'' then new_comps
      else if c \<noteq> ''..'' \<or> (slashes = 0 \<and> new_comps = [])
              \<or> (new_comps \<noteq> [] \<and> last new_comps = ''..'')
           then new_comps @ [c]
      else if new_comps \<noteq> [] then butlast new_comps
      else new_comps)"

definition normpath :: "string \<Rightarrow> string" where
  "normpath path =
     (if path = [] then ''.''
      else
        let slashes = (if startswith path ''//'' \<and> \<not> startswith path ''///'' then 2
                       else if startswith path ''/'' then 1 else 0);
            comps = foldl (norm_step slashes) [] (split_sep path);
            p = replicate slashes CHR ''/'' @ join_sep comps
        in if p = [] then ''.'' else p)"

text \<open>
  \<open>os.path.abspath(path)\<close>; \<open>cwd\<close> is \<open>os.getcwd()\<close>, which the server never changes.
\<close>

definition abspath :: "string \<Rightarrow> string \<Rightarrow> string" where
  "abspath cwd path =
     (if startswith path ''/'' then normpath path else normpath (path_join cwd path))"

text \<open>\<open>os.path.relpath(path, start)\<close>.\<close>

fun common_len :: "string list \<Rightarrow> string list \<Rightarrow> nat" where
  "common_len (x # xs) (y # ys) = (if x = y then Suc (common_len xs ys) else 0)"
| "common_len xs ys = 0"

definition relpath :: "string \<Rightarrow> string \<Rightarrow> string \<Rightarrow> string" where
  "relpath cwd path start =
     (let start_list = filter (\<lambda>x. x \<noteq> []) (split_sep (abspath cwd start));
          path_list = filter (\<lambda>x. x \<noteq> []) (split_sep (abspath cwd path));
          i = common_len start_list path_list;
          rel_list = replicate (length start_list - i) ''..'' @ drop i path_list
      in if rel_list = [] then ''.'' else join_sep rel_list)"

subsection \<open>The file system\<close>

text \<open>
  What a file holds is a sequence of bytes. The server only ever decodes it as UTF-8 or
  appends the UTF-8 encoding of a string to it, so the bytes are represented by the text
  they decode to, or by \<open>Binary\<close> when they are not valid UTF-8. Appending encoded text to
  bytes that are not valid UTF-8 leaves them invalid.
\<close>

datatype filedata = Text string | Binary

text \<open>A directory lists its entries in the order \<open>os.listdir\<close> reports them.\<close>

datatype node = File filedata | Dir "(string \<times> node) list"

type_synonym path = "string list"

fun lookup :: "node \<Rightarrow> path \<Rightarrow> node option" where
  "lookup n [] = Some n"
| "lookup (File d) (c # cs) = None"
| "lookup (Dir es) (c # cs) = (case map_of es c of None \<Rightarrow> None | Some ch \<Rightarrow> lookup ch cs)"

text \<open>
  \<open>put fs p n\<close> stores the node \<open>n\<close> at \<open>p\<close> (replacing what is there, or as a new last
  entry of the parent directory); \<open>del fs p\<close> removes the entry at \<open>p\<close>.
\<close>

fun put :: "node \<Rightarrow> path \<Rightarrow> node \<Rightarrow> node" where
  "put n [] new = new"
| "put (File d) (c # cs) new = File d"
| "put (Dir es) (c # cs) new =
     (case map_of es c of
        None \<Rightarrow> (if cs = [] then Dir (es @ [(c, new)]) else Dir es)
      | Some ch \<Rightarrow> Dir (AList.update c (put ch cs new) es))"

fun del :: "node \<Rightarrow> path \<Rightarrow> node" where
  "del n [] = n"
| "del (File d) (c # cs) = File d"
| "del (Dir es) (c # cs) =
     (if cs = [] then Dir (AList.delete c es)
      else (case map_of es c of
              None \<Rightarrow> Dir es
            | Some ch \<Rightarrow> Dir (AList.update c (del ch cs) es)))"

definition is_dir_at :: "node \<Rightarrow> path \<Rightarrow> bool" where
  "is_dir_at fs p = (case lookup fs p of Some (Dir es) \<Rightarrow> True | _ \<Rightarrow> False)"

definition is_file_at :: "node \<Rightarrow> path \<Rightarrow> bool" where
  "is_file_at fs p = (case lookup fs p of Some (File d) \<Rightarrow> True | _ \<Rightarrow> False)"

text \<open>
  Path-name resolution as the kernel does it, one component at a time from the directory
  \<open>cur\<close>: every component, also an empty one (a doubled or trailing slash) and \<open>.\<close>, needs
  \<open>cur\<close> to be a directory; \<open>..\<close> moves to the parent (the root is its own parent); a name
  must be an entry of \<open>cur\<close>. The result is the location reached, \<open>None\<close> for ENOENT and
  ENOTDIR alike.
\<close>

definition step :: "node \<Rightarrow> path \<Rightarrow> string \<Rightarrow> path option" where
  "step fs cur c =
     (if \<not> is_dir_at fs cur then None
      else if c = [] \<or> c = ''.'' then Some cur
      else if c = ''..'' then Some (butlast cur)
      else if lookup fs (cur @ [c]) = None then None
      else Some (cur @ [c]))"

fun namei :: "node \<Rightarrow> path \<Rightarrow> string list \<Rightarrow> path option" where
  "namei fs cur [] = Some cur"
| "namei fs cur (c # cs) = (case step fs cur c of None \<Rightarrow> None | Some nxt \<Rightarrow> namei fs nxt cs)"

text \<open>
  Every path the server passes to the system is absolute, because \<open>WORKSPACE\<close> is; a
  relative path string does not resolve in the model. On Linux two leading slashes mean the
  same as one.
\<close>

definition resolve :: "node \<Rightarrow> string \<Rightarrow> path option" where
  "resolve fs s = (if startswith s ''/'' then namei fs [] (split_sep s) else None)"

definition path_exists :: "node \<Rightarrow> string \<Rightarrow> bool" where
  "path_exists fs s = (resolve fs s \<noteq> None)"

definition isdir :: "node \<Rightarrow> string \<Rightarrow> bool" where
  "isdir fs s = (case resolve fs s of None \<Rightarrow> False | Some q \<Rightarrow> is_dir_at fs q)"

definition isfile :: "node \<Rightarrow> string \<Rightarrow> bool" where
  "isfile fs s = (case resolve fs s of None \<Rightarrow> False | Some q \<Rightarrow> is_file_at fs q)"

text \<open>
  The exceptions of the system calls. \<open>makedirs\<close> treats \<open>FileExistsError\<close> apart from the
  other subclasses of \<open>OSError\<close> (FileNotFoundError, NotADirectoryError, IsADirectoryError,
  \<open>ENAMETOOLONG\<close>, ...), which are one value here. \<open>UnicodeDecodeError\<close>, which only
  reading raises, is listed with them, and so is \<open>EmbeddedNull\<close>, the
  \<open>ValueError("embedded null byte")\<close> with which \<open>os.mkdir\<close> and \<open>open\<close> refuse a path string
  that holds a NUL character; it is not an \<open>OSError\<close>.
\<close>

datatype os_error = FileExistsError | OtherOSError | UnicodeDecodeError | EmbeddedNull

text \<open>
  The limits on names. A path string reaches the system as its UTF-8 encoding: one byte for
  a character below 128, two bytes for the others of the model. The kernel refuses a
  component of more than \<open>NAME_MAX = 255\<close> bytes and a path of \<open>PATH_MAX = 4096\<close> bytes or
  more (the terminating zero byte counts); Python refuses a string with a NUL before it
  calls the system.
\<close>

definition byte_length :: "string \<Rightarrow> nat" where
  "byte_length s = length s + length (filter (\<lambda>c. CHR 0x7F < c) s)"

definition name_too_long :: "string \<Rightarrow> bool" where
  "name_too_long c = (255 < byte_length c)"

definition path_too_long :: "string \<Rightarrow> bool" where
  "path_too_long s = (4096 \<le> byte_length s)"

text \<open>
  No directory has an entry whose name holds a NUL or is too long, since none can be
  created. So a path with such a component does not resolve (for \<open>os.path.exists\<close>,
  \<open>isdir\<close> and \<open>isfile\<close> the refusal and the missing entry are the same answer), and the
  limits decide something only where the last component is about to be created: in
  \<open>mkdir\<close> and in \<open>open\<close> for writing. A call that fails on a string with a NUL fails with
  \<open>EmbeddedNull\<close>, whatever else is wrong with the path.
\<close>

definition os_failure :: "string \<Rightarrow> os_error" where
  "os_failure s = (if CHR 0x00 \<in> set s then EmbeddedNull else OtherOSError)"

definition listdir :: "node \<Rightarrow> string \<Rightarrow> os_error + string list" where
  "listdir fs s =
     (case resolve fs s of
        None \<Rightarrow> Inl OtherOSError
      | Some q \<Rightarrow> (case lookup fs q of
                    Some (Dir es) \<Rightarrow> Inr (map fst es)
                  | _ \<Rightarrow> Inl OtherOSError))"

text \<open>
  \<open>mkdir\<close> and \<open>rmdir\<close> ignore trailing slashes, resolve all but the last component and
  act on the last one in the directory reached. \<open>mkdir\<close> creates the entry when the name is
  free and within the limits.
\<close>

definition strip_trailing :: "string list \<Rightarrow> string list" where
  "strip_trailing comps = rev (dropWhile (\<lambda>c. c = []) (rev comps))"

definition mkdir :: "node \<Rightarrow> string \<Rightarrow> os_error + node" where
  "mkdir fs s =
     (if \<not> startswith s ''/'' then Inl (os_failure s)
      else
        let comps = strip_trailing (split_sep s) in
        if comps = [] then Inl FileExistsError
        else (case namei fs [] (butlast comps) of
                None \<Rightarrow> Inl (os_failure s)
              | Some par \<Rightarrow>
                  if \<not> is_dir_at fs par then Inl (os_failure s)
                  else if last comps = ''.'' \<or> last comps = ''..'' then Inl FileExistsError
                  else if lookup fs (par @ [last comps]) \<noteq> None then Inl FileExistsError
                  else if CHR 0x00 \<in> set s then Inl EmbeddedNull
                  else if path_too_long s \<or> name_too_long (last comps) then Inl OtherOSError
                  else Inr (put fs (par @ [last comps]) (Dir []))))"

definition rmdir :: "node \<Rightarrow> string \<Rightarrow> os_error + node" where
  "rmdir fs s =
     (if \<not> startswith s ''/'' then Inl OtherOSError
      else
        let comps = strip_trailing (split_sep s) in
        if comps = [] then Inl OtherOSError
        else (case namei fs [] (butlast comps) of
                None \<Rightarrow> Inl OtherOSError
              | Some par \<Rightarrow>
                  if \<not> is_dir_at fs par then Inl OtherOSError
                  else if last comps = ''.'' \<or> last comps = ''..'' then Inl OtherOSError
                  else if lookup fs (par @ [last comps]) = Some (Dir [])
                       then Inr (del fs (par @ [last comps]))
                  else Inl OtherOSError))"

text \<open>\<open>os.remove(path)\<close>: unlinks a file, refuses a directory.\<close>

definition remove_file :: "node \<Rightarrow> string \<Rightarrow> os_error + node" where
  "remove_file fs s =
     (case resolve fs s of
        None \<Rightarrow> Inl OtherOSError
      | Some q \<Rightarrow> if is_file_at fs q then Inr (del fs q) else Inl OtherOSError)"

text \<open>
  \<open>shutil.rmtree(path)\<close>: opens the directory, removes everything below it, then calls
  \<open>os.rmdir(path)\<close> on the same path string. When that last call fails the exception
  propagates and the directory stays behind, emptied.
\<close>

definition rmtree :: "node \<Rightarrow> string \<Rightarrow> os_error option \<times> node" where
  "rmtree fs s =
     (case resolve fs s of
        None \<Rightarrow> (Some OtherOSError, fs)
      | Some q \<Rightarrow>
          if \<not> is_dir_at fs q then (Some OtherOSError, fs)
          else (let emptied = put fs q (Dir []) in
                case rmdir emptied s of
                  Inl e \<Rightarrow> (Some e, emptied)
                | Inr fs' \<Rightarrow> (None, fs')))"

text \<open>
  \<open>os.makedirs(name, exist_ok=...)\<close>, as in the standard library:
  \<^verbatim>\<open>
    head, tail = path.split(name)
    if not tail:
        head, tail = path.split(head)
    if head and tail and not path.exists(head):
        try:
            makedirs(head, exist_ok=exist_ok)
        except FileExistsError:
            pass
        if tail == curdir:
            return
    try:
        mkdir(name, mode)
    except OSError:
        if not exist_ok or not path.isdir(name):
            raise
  \<close>
\<close>

definition makedirs_split :: "string \<Rightarrow> string \<times> string" where
  "makedirs_split name =
     (let (head, tail) = path_split name
      in if tail = [] then path_split head else (head, tail))"

definition mkdir_or_exists :: "bool \<Rightarrow> string \<Rightarrow> node \<Rightarrow> os_error option \<times> node" where
  "mkdir_or_exists exist_ok name fs =
     (case mkdir fs name of
        Inr fs' \<Rightarrow> (None, fs')
      | Inl e \<Rightarrow>
          if e = EmbeddedNull \<or> \<not> exist_ok \<or> \<not> isdir fs name then (Some e, fs) else (None, fs))"

lemma length_last_split_sep: "length (last (split_sep p)) \<le> length p"
  by (induction p) (auto split: list.splits)

lemma length_rstrip: "length (rstrip c s) \<le> length s"
  unfolding rstrip_def using length_dropWhile_le [of "\<lambda>x. x = c" "rev s"] by simp

lemma path_split_shorter:
  assumes "path_split p = (h, t)"
  shows "length h + length t \<le> length p"
proof -
  let ?t = "last (split_sep p)"
  let ?h = "take (length p - length ?t) p"
  have t: "t = ?t" and h: "length h \<le> length ?h"
    using assms length_rstrip [of "CHR ''/''" ?h]
    by (auto simp: path_split_def Let_def split: if_splits)
  have "length ?h + length ?t \<le> length p"
    using length_last_split_sep [of p] by simp
  with t h show ?thesis by simp
qed

lemma makedirs_split_shorter:
  assumes "makedirs_split name = (h, t)" and "t \<noteq> []"
  shows "length h < length name"
proof -
  obtain h0 t0 where s0: "path_split name = (h0, t0)" by (cases "path_split name")
  show ?thesis
  proof (cases "t0 = []")
    case True
    with assms s0 have "path_split h0 = (h, t)" by (simp add: makedirs_split_def)
    from path_split_shorter [OF this] path_split_shorter [OF s0] assms(2)
    show ?thesis by (cases t) auto
  next
    case False
    with assms s0 have "h = h0" "t = t0" by (simp_all add: makedirs_split_def)
    with path_split_shorter [OF s0] False show ?thesis by (cases t0) auto
  qed
qed

function makedirs :: "bool \<Rightarrow> string \<Rightarrow> node \<Rightarrow> os_error option \<times> node" where
  "makedirs exist_ok name fs =
     (let ht = makedirs_split name in
      if fst ht \<noteq> [] \<and> snd ht \<noteq> [] \<and> \<not> path_exists fs (fst ht) then
        (case makedirs exist_ok (fst ht) fs of
           (Some e, fs1) \<Rightarrow>
             if e = FileExistsError
             then (if snd ht = ''.'' then (None, fs1) else mkdir_or_exists exist_ok name fs1)
             else (Some e, fs1)
         | (None, fs1) \<Rightarrow>
             if snd ht = ''.'' then (None, fs1) else mkdir_or_exists exist_ok name fs1)
      else mkdir_or_exists exist_ok name fs)"
  by pat_completeness auto
termination
proof (relation "measure (\<lambda>(e, name, fs). length name)")
  show "wf (measure (\<lambda>(e, name, fs). length name))" by simp
next
  fix exist_ok :: bool and name :: string and fs :: node and ht :: "string \<times> string"
  assume "ht = makedirs_split name"
    and "fst ht \<noteq> [] \<and> snd ht \<noteq> [] \<and> \<not> path_exists fs (fst ht)"
  then have "length (fst ht) < length name"
    using makedirs_split_shorter [of name "fst ht" "snd ht"] by simp
  then show "((exist_ok, fst ht, fs), (exist_ok, name, fs)) \<in> measure (\<lambda>(e, name, fs). length name)"
    by simp
qed

declare makedirs.simps [simp del]

text \<open>
  \<open>open(path, "r", encoding="utf-8").read()\<close>, \<open>open(path, "w", ...).write(content)\<close> and
  \<open>open(path, "a", ...).write(content)\<close>. Opening for writing creates a missing file in an
  existing directory, when its name is within the limits, and truncates an existing one; a
  directory, or a path that ends in a slash, \<open>.\<close> or \<open>..\<close>, cannot be opened for writing.
\<close>

definition read_text :: "node \<Rightarrow> string \<Rightarrow> os_error + string" where
  "read_text fs s =
     (case resolve fs s of
        None \<Rightarrow> Inl OtherOSError
      | Some q \<Rightarrow> (case lookup fs q of
                    Some (File (Text t)) \<Rightarrow> Inr (universal_newlines t)
                  | Some (File Binary) \<Rightarrow> Inl UnicodeDecodeError
                  | _ \<Rightarrow> Inl OtherOSError))"

definition open_target :: "node \<Rightarrow> string \<Rightarrow> path option" where
  "open_target fs s =
     (if \<not> startswith s ''/'' then None
      else
        let comps = split_sep s; c = last comps in
        (case namei fs [] (butlast comps) of
           None \<Rightarrow> None
         | Some par \<Rightarrow>
             if \<not> is_dir_at fs par \<or> c = [] \<or> c = ''.'' \<or> c = ''..'' \<or> is_dir_at fs (par @ [c])
             then None
             else if lookup fs (par @ [c]) = None
                     \<and> (CHR 0x00 \<in> set s \<or> path_too_long s \<or> name_too_long c)
             then None
             else Some (par @ [c])))"

definition write_text :: "node \<Rightarrow> string \<Rightarrow> string \<Rightarrow> os_error + node" where
  "write_text fs s content =
     (case open_target fs s of
        None \<Rightarrow> Inl (os_failure s)
      | Some q \<Rightarrow> Inr (put fs q (File (Text content))))"

definition append_data :: "filedata \<Rightarrow> string \<Rightarrow> filedata" where
  "append_data d content = (case d of Text t \<Rightarrow> Text (t @ content) | Binary \<Rightarrow> Binary)"

definition append_text :: "node \<Rightarrow> string \<Rightarrow> string \<Rightarrow> os_error + node" where
  "append_text fs s content =
     (case open_target fs s of
        None \<Rightarrow> Inl (os_failure s)
      | Some q \<Rightarrow> (case lookup fs q of
                    Some (File d) \<Rightarrow> Inr (put fs q (File (append_data d content)))
                  | _ \<Rightarrow> Inr (put fs q (File (Text content)))))"

subsection \<open>os.walk\<close>

text \<open>
  \<open>os.walk(top)\<close>, top-down: one triple \<open>(root, dirs, files)\<close> per directory, the directory
  itself before its subdirectories, entries in \<open>scandir\<close> order; a \<open>top\<close> that cannot be
  scanned yields nothing. The walk descends into the entry that \<open>scandir\<close> reported.
\<close>

fun is_Dir :: "node \<Rightarrow> bool" where
  "is_Dir (Dir es) = True"
| "is_Dir (File d) = False"

fun walk_node :: "string \<Rightarrow> node \<Rightarrow> (string \<times> string list \<times> string list) list" where
  "walk_node root (File d) = []"
| "walk_node root (Dir es) =
     (root, map fst (filter (\<lambda>e. is_Dir (snd e)) es), map fst (filter (\<lambda>e. \<not> is_Dir (snd e)) es))
     # concat (map (\<lambda>e. if is_Dir (snd e) then walk_node (path_join root (fst e)) (snd e) else [])
                   es)"

definition walk :: "node \<Rightarrow> string \<Rightarrow> (string \<times> string list \<times> string list) list" where
  "walk fs start =
     (case resolve fs start of
        None \<Rightarrow> []
      | Some q \<Rightarrow> (case lookup fs q of None \<Rightarrow> [] | Some n \<Rightarrow> walk_node start n))"

subsection \<open>The operations of server.py\<close>

text \<open>
  \<open>WORKSPACE = os.path.abspath("workspace")\<close>, computed once from the working directory.
\<close>

definition WORKSPACE :: "string \<Rightarrow> string" where
  "WORKSPACE cwd = abspath cwd ''workspace''"

text \<open>
  What an operation raises. The server raises \<open>ValueError\<close> with a message; the four kinds
  stand for the messages
  \<^item> \<open>NotFound\<close>: "Directory '...' does not exist in workspace", "File not found",
    "Directory not found", "File or directory not found";
  \<^item> \<open>InvalidArgument\<close>: "'...' is not a directory", "Use delete_directory for directories",
    "Path is not a directory";
  \<^item> \<open>AlreadyExists\<close>: "Directory already exists";
  \<^item> \<open>PermissionDenied\<close>: "Cannot delete workspace root".

  \<open>Sys e\<close> is an exception of a library call that the server does not catch.
\<close>

datatype error = NotFound | InvalidArgument | AlreadyExists | PermissionDenied | Sys os_error

text \<open>
  Every operation returns the \<open>"result"\<close> field of its dictionary (or the exception) and the
  file system after the call. The \<open>"text"\<close> field and the status sentences of the
  mutating operations are presentation and are left out.
\<close>

definition list_files :: "string \<Rightarrow> string \<Rightarrow> node \<Rightarrow> (error + string list) \<times> node" where
  "list_files cwd directory fs =
     (let target_dir = path_join (WORKSPACE cwd) directory in
      if \<not> path_exists fs target_dir then (Inl NotFound, fs)
      else if \<not> isdir fs target_dir then (Inl InvalidArgument, fs)
      else (case listdir fs target_dir of
              Inl e \<Rightarrow> (Inl (Sys e), fs)
            | Inr items \<Rightarrow>
                let dirs = map (\<lambda>item. item @ ''/'')
                             (filter (\<lambda>item. isdir fs (path_join target_dir item)) items);
                    files = filter (\<lambda>item. \<not> isdir fs (path_join target_dir item)) items
                in (Inr (sort dirs @ sort files), fs)))"

definition read_file :: "string \<Rightarrow> string \<Rightarrow> node \<Rightarrow> (error + string) \<times> node" where
  "read_file cwd filename fs =
     (let filepath = path_join (WORKSPACE cwd) filename in
      if \<not> isfile fs filepath then (Inl NotFound, fs)
      else (case read_text fs filepath of
              Inl e \<Rightarrow> (Inl (Sys e), fs)
            | Inr content \<Rightarrow> (Inr content, fs)))"

definition write_file :: "string \<Rightarrow> string \<Rightarrow> string \<Rightarrow> node \<Rightarrow> (error + unit) \<times> node" where
  "write_file cwd filename content fs =
     (let filepath = path_join (WORKSPACE cwd) filename in
      case makedirs True (dirname filepath) fs of
        (Some e, fs1) \<Rightarrow> (Inl (Sys e), fs1)
      | (None, fs1) \<Rightarrow>
          (case write_text fs1 filepath content of
             Inl e \<Rightarrow> (Inl (Sys e), fs1)
           | Inr fs2 \<Rightarrow> (Inr (), fs2)))"

definition append_file :: "string \<Rightarrow> string \<Rightarrow> string \<Rightarrow> node \<Rightarrow> (error + unit) \<times> node" where
  "append_file cwd filename content fs =
     (let filepath = path_join (WORKSPACE cwd) filename in
      if \<not> isfile fs filepath then (Inl NotFound, fs)
      else (case append_text fs filepath content of
              Inl e \<Rightarrow> (Inl (Sys e), fs)
            | Inr fs1 \<Rightarrow> (Inr (), fs1)))"

definition delete_file :: "string \<Rightarrow> string \<Rightarrow> node \<Rightarrow> (error + unit) \<times> node" where
  "delete_file cwd filename fs =
     (let filepath = path_join (WORKSPACE cwd) filename in
      if \<not> path_exists fs filepath then (Inl NotFound, fs)
      else if isdir fs filepath then (Inl InvalidArgument, fs)
      else (case remove_file fs filepath of
              Inl e \<Rightarrow> (Inl (Sys e), fs)
            | Inr fs1 \<Rightarrow> (Inr (), fs1)))"

definition create_directory :: "string \<Rightarrow> string \<Rightarrow> node \<Rightarrow> (error + unit) \<times> node" where
  "create_directory cwd directory fs =
     (let dirpath = path_join (WORKSPACE cwd) directory in
      if path_exists fs dirpath then (Inl AlreadyExists, fs)
      else (case makedirs False dirpath fs of
              (Some e, fs1) \<Rightarrow> (Inl (Sys e), fs1)
            | (None, fs1) \<Rightarrow> (Inr (), fs1)))"

definition delete_directory :: "string \<Rightarrow> string \<Rightarrow> node \<Rightarrow> (error + unit) \<times> node" where
  "delete_directory cwd directory fs =
     (let dirpath = path_join (WORKSPACE cwd) directory in
      if \<not> path_exists fs dirpath then (Inl NotFound, fs)
      else if \<not> isdir fs dirpath then (Inl InvalidArgument, fs)
      else if abspath cwd dirpath = abspath cwd (WORKSPACE cwd) then (Inl PermissionDenied, fs)
      else (case rmtree fs dirpath of
              (Some e, fs1) \<Rightarrow> (Inl (Sys e), fs1)
            | (None, fs1) \<Rightarrow> (Inr (), fs1)))"

text \<open>
  \<open>file_info\<close>: of the dictionary it returns, the model keeps \<open>name\<close>, \<open>is_directory\<close>,
  \<open>absolute_path\<close> and, for a directory, the two counts of \<open>contents\<close>. The byte size and the
  two time stamps come from \<open>os.stat\<close> and are not part of the model.
\<close>

record info =
  name :: string
  is_directory :: bool
  absolute_path :: string
  contents :: "(nat \<times> nat) option"

definition file_info :: "string \<Rightarrow> string \<Rightarrow> node \<Rightarrow> (error + info) \<times> node" where
  "file_info cwd filename fs =
     (let filepath = path_join (WORKSPACE cwd) filename in
      if \<not> path_exists fs filepath then (Inl NotFound, fs)
      else
        let is_dir = isdir fs filepath;
            base = \<lparr> name = filename, is_directory = is_dir,
                     absolute_path = abspath cwd filepath, contents = None \<rparr>
        in if is_dir then
             (case listdir fs filepath of
                Inl e \<Rightarrow> (Inl (Sys e), fs)
              | Inr items \<Rightarrow>
                  let dir_count = length (filter (\<lambda>item. isdir fs (path_join filepath item)) items);
                      file_count = length items - dir_count
                  in (Inr (base \<lparr> contents := Some (file_count, dir_count) \<rparr>), fs))
           else (Inr base, fs))"

text \<open>
  \<open>search_files\<close>: the body of the inner loop for one file of one walk triple. It yields the
  match appended for that file, if any; a file that cannot be opened or decoded is skipped.
\<close>

definition search_one :: "string \<Rightarrow> string \<Rightarrow> string \<Rightarrow> node \<Rightarrow> string \<Rightarrow> string
    \<Rightarrow> (string \<times> nat) list" where
  "search_one cwd query extension fs root file =
     (if extension \<noteq> [] \<and> \<not> endswith file extension then []
      else
        let filepath = path_join root file in
        (case read_text fs filepath of
           Inl e \<Rightarrow> []
         | Inr content \<Rightarrow>
             if contains (lower content) (lower query)
             then [(relpath cwd filepath (WORKSPACE cwd), count_str (lower content) (lower query))]
             else []))"

definition search_files :: "string \<Rightarrow> string \<Rightarrow> string \<Rightarrow> node
    \<Rightarrow> (error + (string \<times> nat) list) \<times> node" where
  "search_files cwd query extension fs =
     (Inr (concat (map (\<lambda>(root, dirs, files).
                          concat (map (search_one cwd query extension fs root) files))
                       (walk fs (WORKSPACE cwd)))), fs)"

definition find_files :: "string \<Rightarrow> string \<Rightarrow> node \<Rightarrow> (error + string list) \<times> node" where
  "find_files cwd pattern fs =
     (Inr (concat (map (\<lambda>(root, dirs, files).
                          map (\<lambda>file. relpath cwd (path_join root file) (WORKSPACE cwd))
                              (filter (\<lambda>file. pattern = ''*''
                                         \<or> endswith file (lstrip CHR ''*'' pattern)) files))
                       (walk fs (WORKSPACE cwd)))), fs)"

text \<open>
  \<open>get_workspace_info\<close>: the two counts; the total size and its rendering in units use
  \<open>os.path.getsize\<close> and floating point and are not part of the model.
\<close>

definition get_workspace_info :: "string \<Rightarrow> node \<Rightarrow> (error + nat \<times> nat) \<times> node" where
  "get_workspace_info cwd fs =
     (let triples = walk fs (WORKSPACE cwd);
          dir_count = sum_list (map (\<lambda>(root, dirs, files). length dirs) triples);
          file_count = sum_list (map (\<lambda>(root, dirs, files). length files) triples)
      in (Inr (file_count, dir_count), fs))"

text \<open>
  The catalog: a call names an operation and carries its arguments; \<open>run\<close> dispatches it.
\<close>

datatype call =
    List_files string
  | Read_file string
  | Write_file string string
  | Append_file string string
  | Delete_file string
  | Create_directory string
  | Delete_directory string
  | File_info string
  | Search_files string string
  | Find_files string
  | Get_workspace_info

datatype payload =
    Names "string list"
  | Content string
  | Done
  | Information info
  | Matches "(string \<times> nat) list"
  | Counts "nat \<times> nat"

definition tag :: "('a \<Rightarrow> payload) \<Rightarrow> (error + 'a) \<times> node \<Rightarrow> (error + payload) \<times> node" where
  "tag f r = (case fst r of Inl e \<Rightarrow> Inl e | Inr x \<Rightarrow> Inr (f x), snd r)"

definition run :: "string \<Rightarrow> call \<Rightarrow> node \<Rightarrow> (error + payload) \<times> node" where
  "run cwd c fs =
     (case c of
        List_files d \<Rightarrow> tag Names (list_files cwd d fs)
      | Read_file f \<Rightarrow> tag Content (read_file cwd f fs)
      | Write_file f t \<Rightarrow> tag (\<lambda>u. Done) (write_file cwd f t fs)
      | Append_file f t \<Rightarrow> tag (\<lambda>u. Done) (append_file cwd f t fs)
      | Delete_file f \<Rightarrow> tag (\<lambda>u. Done) (delete_file cwd f fs)
      | Create_directory d \<Rightarrow> tag (\<lambda>u. Done) (create_directory cwd d fs)
      | Delete_directory d \<Rightarrow> tag (\<lambda>u. Done) (delete_directory cwd d fs)
      | File_info f \<Rightarrow> tag Information (file_info cwd f fs)
      | Search_files q ext \<Rightarrow> tag Matches (search_files cwd q ext fs)
      | Find_files pat \<Rightarrow> tag Names (find_files cwd pat fs)
      | Get_workspace_info \<Rightarrow> tag Counts (get_workspace_info cwd fs))"

definition classified :: "error \<Rightarrow> bool" where
  "classified e = (e = NotFound \<or> e = InvalidArgument \<or> e = AlreadyExists \<or> e = PermissionDenied)"

subsection \<open>An example workspace\<close>

text \<open>
  The server started in \<open>/srv\<close>: the workspace \<open>/srv/workspace\<close> holds a text file, a
  subdirectory with one file and a file that is not UTF-8; \<open>/srv/secret\<close> lies outside it.
\<close>

definition example_fs :: node where
  "example_fs =
     Dir [(''srv'',
           Dir [(''workspace'',
                 Dir [(''b.txt'', File (Text ''one'')),
                      (''a.txt'', File (Text ''two'')),
                      (''sub'', Dir [(''note.txt'', File (Text ''Hello World hello''))]),
                      (''blob'', File Binary)]),
                (''secret'', File (Text ''key''))])]"

text \<open>
  A second workspace, for the searches: \<open>f.txt\<close> holds \<open>a\<close>, a carriage return and \<open>b\<close>;
  \<open>u.txt\<close> holds a word that begins with the Latin-1 capital U+00C9.
\<close>

definition search_fs :: node where
  "search_fs =
     Dir [(''srv'',
           Dir [(''workspace'',
                 Dir [(''f.txt'', File (Text [CHR ''a'', CHR 0x0D, CHR ''b''])),
                      (''u.txt'', File (Text [CHR 0xC9, CHR ''c'', CHR ''o'', CHR ''l'', CHR ''e'']))])])]"

subsection \<open>Views of the file system used in the statements\<close>

text \<open>
  What path resolution sees of a location: a file with its data, or a directory.
\<close>

datatype kind = KFile filedata | KDir

fun kind_of :: "node \<Rightarrow> kind" where
  "kind_of (File d) = KFile d"
| "kind_of (Dir es) = KDir"

definition kind_at :: "node \<Rightarrow> path \<Rightarrow> kind option" where
  "kind_at fs p = map_option kind_of (lookup fs p)"

text \<open>The text stored in the file that a path string names, before newline translation.\<close>

definition file_text :: "node \<Rightarrow> string \<Rightarrow> string option" where
  "file_text fs s =
     (case resolve fs s of
        None \<Rightarrow> None
      | Some q \<Rightarrow> (case lookup fs q of Some (File (Text t)) \<Rightarrow> Some t | _ \<Rightarrow> None))"

text \<open>
  A well-formed tree: the entries of a directory have distinct names, and a name is not
  empty, holds no slash and is neither \<open>.\<close> nor \<open>..\<close>.
\<close>

definition valid_name :: "string \<Rightarrow> bool" where
  "valid_name n = (n \<noteq> [] \<and> CHR ''/'' \<notin> set n \<and> n \<noteq> ''.'' \<and> n \<noteq> ''..'')"



text \<open>The absolute path string of a location: \<open>/a/b\<close> for \<open>[a, b]\<close>.\<close>

definition abs_str :: "path \<Rightarrow> string" where
  "abs_str p = concat (map (\<lambda>c. CHR ''/'' # c) p)"




section \<open>Properties of the model\<close>

subsection \<open>Lookup after an update\<close>

lemma kind_at_Nil [simp]: "kind_at n [] = Some (kind_of n)"
  by (simp add: kind_at_def)

lemma kind_at_File_Cons [simp]: "kind_at (File d) (c # cs) = None"
  by (simp add: kind_at_def)

lemma kind_at_Dir_Cons:
  "kind_at (Dir es) (c # cs) = (case map_of es c of None \<Rightarrow> None | Some ch \<Rightarrow> kind_at ch cs)"
  by (simp add: kind_at_def split: option.splits)

lemma is_dir_at_kind: "is_dir_at fs p = (kind_at fs p = Some KDir)"
  by (cases "lookup fs p"; cases "the (lookup fs p)") (auto simp: is_dir_at_def kind_at_def)


lemma lookup_None_kind: "(lookup fs p = None) = (kind_at fs p = None)"
  by (simp add: kind_at_def)

lemma kind_at_append_dir:
  "kind_at fs (p @ r) = Some k \<Longrightarrow> r \<noteq> [] \<Longrightarrow> kind_at fs p = Some KDir"
proof (induction p arbitrary: fs)
  case Nil
  then show ?case by (cases fs; cases r) auto
next
  case (Cons c p)
  then show ?case by (cases fs) (auto simp: kind_at_Dir_Cons split: option.splits)
qed

lemma kind_put:
  assumes "q \<noteq> []" and "kind_at fs (butlast q) = Some KDir"
  shows "kind_at (put fs q n) p
         = (if prefix q p then kind_at n (drop (length q) p) else kind_at fs p)"
  using assms
proof (induction q arbitrary: fs p)
  case Nil
  then show ?case by simp
next
  case (Cons c cs)
  show ?case
  proof (cases fs)
    case (File d)
    with Cons.prems show ?thesis by (cases cs) auto
  next
    case (Dir es)
    show ?thesis
    proof (cases cs)
      case Nil
      have m: "map_of (es @ [(c, n)]) = (\<lambda>x. if map_of es x = None \<and> x = c then Some n else map_of es x)"
        by (auto simp: map_add_def fun_eq_iff split: option.splits)
      show ?thesis
        using Dir Nil
        by (cases p) (auto simp: kind_at_Dir_Cons update_conv' m split: option.splits)
    next
      case (Cons c2 cs2)
      with Cons.prems Dir obtain ch where ch: "map_of es c = Some ch"
        and chd: "kind_at ch (butlast cs) = Some KDir"
        by (auto simp: kind_at_Dir_Cons split: option.splits)
      from Cons have "cs \<noteq> []" by simp
      from Cons.IH [OF this chd]
      have ih: "\<And>p. kind_at (put ch cs n) p
         = (if prefix cs p then kind_at n (drop (length cs) p) else kind_at ch p)" .
      show ?thesis
        using Dir ch ih
        by (cases p) (auto simp: kind_at_Dir_Cons update_conv' split: option.splits)
    qed
  qed
qed

lemma kind_del:
  assumes "q \<noteq> []"
  shows "kind_at (del fs q) p = (if prefix q p then None else kind_at fs p)"
  using assms
proof (induction q arbitrary: fs p)
  case Nil
  then show ?case by simp
next
  case (Cons c cs)
  show ?case
  proof (cases fs)
    case (File d)
    then show ?thesis by (cases p) auto
  next
    case (Dir es)
    show ?thesis
    proof (cases cs)
      case Nil
      show ?thesis
        using Dir Nil
        by (cases p) (auto simp: kind_at_Dir_Cons delete_conv' split: option.splits)
    next
      case (Cons c2 cs2)
      then have ne: "cs \<noteq> []" by simp
      show ?thesis
      proof (cases "map_of es c")
        case None
        with Dir ne show ?thesis
          by (cases p) (auto simp: kind_at_Dir_Cons split: option.splits)
      next
        case (Some ch)
        from Cons.IH [OF ne]
        have ih: "\<And>p. kind_at (del ch cs) p = (if prefix cs p then None else kind_at ch p)" .
        show ?thesis
          using Dir Some ne ih
          by (cases p) (auto simp: kind_at_Dir_Cons update_conv' split: option.splits)
      qed
    qed
  qed
qed

subsection \<open>Existence tests\<close>

lemma isdir_not_isfile: "isdir fs s \<Longrightarrow> \<not> isfile fs s"
  by (auto simp: isdir_def isfile_def is_dir_at_def is_file_at_def
           split: option.splits node.splits)

lemma isdir_exists: "isdir fs s \<Longrightarrow> path_exists fs s"
  by (auto simp: isdir_def path_exists_def split: option.splits)

lemma isfile_exists: "isfile fs s \<Longrightarrow> path_exists fs s"
  by (auto simp: isfile_def path_exists_def split: option.splits)

subsection \<open>Path resolution\<close>

lemma kind_at_File_iff: "(kind_at fs p = Some (KFile d)) = (lookup fs p = Some (File d))"
  by (cases "lookup fs p"; cases "the (lookup fs p)") (auto simp: kind_at_def)

lemma kind_at_butlast_dir:
  assumes "kind_at fs p = Some KDir"
  shows "kind_at fs (butlast p) = Some KDir"
proof (cases "p = []")
  case True
  with assms show ?thesis by simp
next
  case False
  then have "p = butlast p @ [last p]" by simp
  with assms have "kind_at fs (butlast p @ [last p]) = Some KDir" by simp
  then show ?thesis by (rule kind_at_append_dir) simp
qed

lemma step_kind:
  "step fs cur c =
     (if kind_at fs cur \<noteq> Some KDir then None
      else if c = [] \<or> c = ''.'' then Some cur
      else if c = ''..'' then Some (butlast cur)
      else if kind_at fs (cur @ [c]) = None then None
      else Some (cur @ [c]))"
  by (simp add: step_def is_dir_at_kind lookup_None_kind)

lemma step_exists:
  assumes "step fs cur c = Some q"
  shows "kind_at fs q \<noteq> None"
  using assms kind_at_butlast_dir [of fs cur]
  by (auto simp: step_kind split: if_splits)

lemma namei_exists:
  "namei fs cur cs = Some q \<Longrightarrow> kind_at fs cur \<noteq> None \<Longrightarrow> kind_at fs q \<noteq> None"
proof (induction cs arbitrary: cur)
  case Nil
  then show ?case by simp
next
  case (Cons c cs)
  then obtain m where m: "step fs cur c = Some m" and r: "namei fs m cs = Some q"
    by (auto split: option.splits)
  from step_exists [OF m] Cons.IH [OF r] show ?case by simp
qed

lemma namei_append:
  "namei fs cur (xs @ ys) = (case namei fs cur xs of None \<Rightarrow> None | Some m \<Rightarrow> namei fs m ys)"
  by (induction xs arbitrary: cur) (auto split: option.splits)

lemma namei_snoc:
  "namei fs cur (xs @ [c]) = (case namei fs cur xs of None \<Rightarrow> None | Some m \<Rightarrow> step fs m c)"
  by (simp add: namei_append split: option.splits)

lemma step_cong:
  assumes "\<And>p. (kind_at fs' p = Some KDir) = (kind_at fs p = Some KDir)"
    and "\<And>p. (kind_at fs' p = None) = (kind_at fs p = None)"
  shows "step fs' cur c = step fs cur c"
  using assms by (simp add: step_kind)

lemma namei_cong:
  assumes "\<And>p. (kind_at fs' p = Some KDir) = (kind_at fs p = Some KDir)"
    and "\<And>p. (kind_at fs' p = None) = (kind_at fs p = None)"
  shows "namei fs' cur cs = namei fs cur cs"
proof (induction cs arbitrary: cur)
  case Nil
  show ?case by simp
next
  case (Cons c cs)
  have "step fs' cur c = step fs cur c" using assms by (rule step_cong)
  with Cons show ?case by (simp split: option.splits)
qed

text \<open>A path that resolves to a file ends in a name, and its parent resolves to a directory.\<close>

lemma step_to_file:
  assumes "step fs par c = Some q" and "kind_at fs q = Some (KFile d)"
  shows "kind_at fs par = Some KDir \<and> c \<noteq> [] \<and> c \<noteq> ''.'' \<and> c \<noteq> ''..'' \<and> q = par @ [c]"
  using assms kind_at_butlast_dir [of fs par]
  by (auto simp: step_kind split: if_splits)

lemma split_sep_nonempty [simp]: "split_sep s \<noteq> []"
  by (induction s) (auto split: list.splits)

lemma open_target_file:
  assumes "resolve fs s = Some q" and "kind_at fs q = Some (KFile d)"
  shows "open_target fs s = Some q"
proof -
  from assms(1) have sw: "startswith s ''/''" and n: "namei fs [] (split_sep s) = Some q"
    by (auto simp: resolve_def split: if_splits)
  let ?cs = "split_sep s"
  have "namei fs [] (butlast ?cs @ [last ?cs]) = Some q" using n by simp
  then have "(case namei fs [] (butlast ?cs) of None \<Rightarrow> None
              | Some m \<Rightarrow> step fs m (last ?cs)) = Some q"
    by (simp only: namei_snoc)
  then obtain par where par: "namei fs [] (butlast ?cs) = Some par"
    and st: "step fs par (last ?cs) = Some q"
    by (cases "namei fs [] (butlast ?cs)") auto
  from step_to_file [OF st assms(2)] assms(2)
  have "lookup fs (par @ [last ?cs]) \<noteq> None" by (simp add: lookup_None_kind)
  with step_to_file [OF st assms(2)] assms(2) par sw show ?thesis
    by (simp add: open_target_def Let_def is_dir_at_kind)
qed

lemma kind_put_file:
  assumes "kind_at fs q = Some (KFile d)"
  shows "kind_at (put fs q (File d')) p = (if p = q then Some (KFile d') else kind_at fs p)"
proof (cases "q = []")
  case True
  with assms show ?thesis by (cases fs; cases p) auto
next
  case False
  then have "q = butlast q @ [last q]" by simp
  with assms have "kind_at fs (butlast q @ [last q]) = Some (KFile d)" by simp
  then have bd: "kind_at fs (butlast q) = Some KDir" by (rule kind_at_append_dir) simp
  have nx: "\<not> (prefix q p \<and> p \<noteq> q) \<or> kind_at fs p = None"
  proof (cases "prefix q p \<and> p \<noteq> q")
    case True
    then obtain r where r: "p = q @ r" "r \<noteq> []" by (auto simp: prefix_def)
    show ?thesis
    proof (cases "kind_at fs p")
      case None
      then show ?thesis by simp
    next
      case (Some k)
      with r have "kind_at fs q = Some KDir" using kind_at_append_dir [of fs q r k] by simp
      with assms show ?thesis by simp
    qed
  qed simp
  have "kind_at (put fs q (File d')) p
        = (if prefix q p then kind_at (File d') (drop (length q) p) else kind_at fs p)"
    using False bd by (rule kind_put)
  also have "\<dots> = (if p = q then Some (KFile d') else kind_at fs p)"
  proof (cases "prefix q p")
    case True
    then obtain r where r: "p = q @ r" by (auto simp: prefix_def)
    with nx show ?thesis by (cases r) auto
  next
    case False
    then show ?thesis by auto
  qed
  finally show ?thesis .
qed

lemma resolve_put_file:
  assumes "kind_at fs q = Some (KFile d)"
  shows "resolve (put fs q (File d')) s = resolve fs s"
proof -
  have "namei (put fs q (File d')) [] (split_sep s) = namei fs [] (split_sep s)"
    by (rule namei_cong) (use assms in \<open>auto simp: kind_put_file\<close>)
  then show ?thesis by (simp add: resolve_def)
qed

lemma append_text_file:
  assumes "resolve fs s = Some q" and "lookup fs q = Some (File d)"
  shows "append_text fs s c = Inr (put fs q (File (append_data d c)))"
  using assms open_target_file [OF assms(1), of d]
  by (simp add: append_text_def kind_at_File_iff)

lemma file_text_append:
  assumes "file_text fs s = Some t"
  shows "\<exists>fs1. append_text fs s c = Inr fs1 \<and> file_text fs1 s = Some (t @ c) \<and> isfile fs s"
proof -
  from assms obtain q where q: "resolve fs s = Some q" and l: "lookup fs q = Some (File (Text t))"
    by (auto simp: file_text_def split: option.splits node.splits filedata.splits)
  let ?fs1 = "put fs q (File (Text (t @ c)))"
  have k: "kind_at fs q = Some (KFile (Text t))" using l by (simp add: kind_at_File_iff)
  have a: "append_text fs s c = Inr ?fs1"
    using append_text_file [OF q l] by (simp add: append_data_def)
  have r: "resolve ?fs1 s = Some q" using q resolve_put_file [OF k] by simp
  have "kind_at ?fs1 q = Some (KFile (Text (t @ c)))" using k by (simp add: kind_put_file)
  then have "lookup ?fs1 q = Some (File (Text (t @ c)))" by (simp add: kind_at_File_iff)
  with r have "file_text ?fs1 s = Some (t @ c)" by (simp add: file_text_def)
  moreover have "isfile fs s" using q l by (simp add: isfile_def is_file_at_def)
  ultimately show ?thesis using a by blast
qed

lemma file_text_read:
  assumes "file_text fs s = Some t"
  shows "read_text fs s = Inr (universal_newlines t) \<and> isfile fs s"
  using assms
  by (auto simp: file_text_def read_text_def isfile_def is_file_at_def
           split: option.splits node.splits filedata.splits)

lemma universal_newlines_id:
  "CHR 0x0D \<notin> set t \<Longrightarrow> universal_newlines t = t"
  by (induction t rule: universal_newlines.induct) auto

subsection \<open>Components of a path string\<close>

lemma split_sep_append_slash: "split_sep (a @ CHR ''/'' # b) = split_sep a @ split_sep b"
proof (induction a)
  case Nil
  show ?case by simp
next
  case (Cons c a)
  obtain x xs where x: "split_sep a = x # xs" by (cases "split_sep a") auto
  with Cons show ?case by simp
qed

lemma split_sep_no_slash: "CHR ''/'' \<notin> set a \<Longrightarrow> split_sep a = [a]"
  by (induction a) auto






subsection \<open>Heads of paths, and directories that exist already\<close>


lemma namei_empties_dir:
  "kind_at fs cur = Some KDir \<Longrightarrow> namei fs cur (replicate k []) = Some cur"
  by (induction k) (auto simp: step_kind)






text \<open>\<open>mkdir\<close> fails on a path that exists.\<close>

lemma strip_trailing_decomp: "\<exists>k. cs = strip_trailing cs @ replicate k []"
proof -
  let ?P = "\<lambda>c::string. c = []"
  have "rev cs = takeWhile ?P (rev cs) @ dropWhile ?P (rev cs)" by simp
  then have "cs = rev (dropWhile ?P (rev cs)) @ rev (takeWhile ?P (rev cs))"
    by (metis rev_append rev_rev_ident)
  moreover have "takeWhile ?P (rev cs) = replicate (length (takeWhile ?P (rev cs))) []"
    by (rule replicate_length_same [symmetric]) (auto dest: set_takeWhileD)
  ultimately show ?thesis unfolding strip_trailing_def by (metis rev_replicate)
qed




subsection \<open>Writing a file\<close>

lemma kind_at_missing_below:
  assumes "kind_at fs q \<noteq> Some KDir" and "prefix q p" and "p \<noteq> q"
  shows "kind_at fs p = None"
proof (cases "kind_at fs p")
  case None
  then show ?thesis .
next
  case (Some k)
  from assms(2,3) obtain r where r: "p = q @ r" "r \<noteq> []" by (auto simp: prefix_def)
  with Some have "kind_at fs q = Some KDir" using kind_at_append_dir [of fs q r k] by simp
  with assms(1) show ?thesis by simp
qed

text \<open>Storing a node where there is no directory changes that one location only.\<close>

lemma kind_put_leaf:
  assumes "q \<noteq> []" and "kind_at fs (butlast q) = Some KDir" and "kind_at fs q \<noteq> Some KDir"
    and "\<And>es. n = Dir es \<Longrightarrow> es = []"
  shows "kind_at (put fs q n) p = (if p = q then Some (kind_of n) else kind_at fs p)"
proof -
  have "kind_at (put fs q n) p
        = (if prefix q p then kind_at n (drop (length q) p) else kind_at fs p)"
    using assms(1,2) by (rule kind_put)
  also have "\<dots> = (if p = q then Some (kind_of n) else kind_at fs p)"
  proof (cases "prefix q p")
    case False
    then show ?thesis by auto
  next
    case True
    then obtain r where r: "p = q @ r" by (auto simp: prefix_def)
    show ?thesis
    proof (cases r)
      case Nil
      with r show ?thesis by simp
    next
      case (Cons c cs)
      with r True have "kind_at fs p = None"
        using kind_at_missing_below [OF assms(3), of p] by simp
      moreover have "kind_at n (c # cs) = None"
        using assms(4) by (cases n) (auto simp: kind_at_Dir_Cons)
      ultimately show ?thesis using r Cons by simp
    qed
  qed
  finally show ?thesis .
qed

lemma step_mono:
  assumes "\<And>p. kind_at fs p = Some KDir \<Longrightarrow> kind_at fs' p = Some KDir"
    and "\<And>p. kind_at fs p \<noteq> None \<Longrightarrow> kind_at fs' p \<noteq> None"
    and "step fs cur c = Some q"
  shows "step fs' cur c = Some q"
  using assms(3) assms(1) [of cur] assms(2) [of "cur @ [c]"]
  by (auto simp: step_kind split: if_splits)

lemma namei_mono:
  assumes "\<And>p. kind_at fs p = Some KDir \<Longrightarrow> kind_at fs' p = Some KDir"
    and "\<And>p. kind_at fs p \<noteq> None \<Longrightarrow> kind_at fs' p \<noteq> None"
  shows "namei fs cur cs = Some q \<Longrightarrow> namei fs' cur cs = Some q"
proof (induction cs arbitrary: cur)
  case Nil
  then show ?case by simp
next
  case (Cons c cs)
  then obtain m where m: "step fs cur c = Some m" and r: "namei fs m cs = Some q"
    by (auto split: option.splits)
  from step_mono [OF assms m] Cons.IH [OF r] show ?case by simp
qed



text \<open>A file that \<open>open\<close> creates has a name within the limits.\<close>

lemma open_target_within_limits:
  assumes "open_target fs s = Some q" and "lookup fs q = None"
  shows "CHR 0x00 \<notin> set s \<and> \<not> path_too_long s \<and> \<not> name_too_long (last q)"
proof -
  have sw: "startswith s ''/''"
    using assms(1) by (cases "startswith s ''/''") (simp_all add: open_target_def)
  obtain par where par: "namei fs [] (butlast (split_sep s)) = Some par"
    using assms(1) sw by (cases "namei fs [] (butlast (split_sep s))")
      (simp_all add: open_target_def Let_def)
  let ?c = "last (split_sep s)"
  have "(if \<not> is_dir_at fs par \<or> ?c = [] \<or> ?c = ''.'' \<or> ?c = ''..''
               \<or> is_dir_at fs (par @ [?c])
            then None
            else if lookup fs (par @ [?c]) = None
                    \<and> (CHR 0x00 \<in> set s \<or> path_too_long s \<or> name_too_long ?c)
            then None
            else Some (par @ [?c])) = Some q"
    using assms(1) sw par
    by (simp only: open_target_def Let_def if_False not_True_eq_False option.case)
  with assms(2) show ?thesis by (auto split: if_splits)
qed










subsection \<open>Creating and removing directories\<close>

lemma last_strip_trailing: "strip_trailing cs \<noteq> [] \<Longrightarrow> last (strip_trailing cs) \<noteq> []"
  using hd_dropWhile [of "\<lambda>c. c = []" "rev cs"]
  by (auto simp: strip_trailing_def last_rev)

lemma mkdir_InrD:
  assumes "mkdir fs s = Inr fs'"
  shows "startswith s ''/'' \<and> strip_trailing (split_sep s) \<noteq> [] \<and>
    (\<exists>par. namei fs [] (butlast (strip_trailing (split_sep s))) = Some par
       \<and> kind_at fs par = Some KDir
       \<and> last (strip_trailing (split_sep s)) \<noteq> ''.''
       \<and> last (strip_trailing (split_sep s)) \<noteq> ''..''
       \<and> kind_at fs (par @ [last (strip_trailing (split_sep s))]) = None
       \<and> fs' = put fs (par @ [last (strip_trailing (split_sep s))]) (Dir []))"
proof -
  let ?cs = "strip_trailing (split_sep s)"
  have sw: "startswith s ''/''"
    using assms by (cases "startswith s ''/''") (simp_all add: mkdir_def)
  have ne: "?cs \<noteq> []"
    using assms sw by (cases "?cs = []") (simp_all add: mkdir_def)
  obtain par where par: "namei fs [] (butlast ?cs) = Some par"
    using assms sw ne by (cases "namei fs [] (butlast ?cs)") (simp_all add: mkdir_def Let_def)
  have i: "(if \<not> is_dir_at fs par then Inl (os_failure s)
            else if last ?cs = ''.'' \<or> last ?cs = ''..'' then Inl FileExistsError
            else if lookup fs (par @ [last ?cs]) \<noteq> None then Inl FileExistsError
            else if CHR 0x00 \<in> set s then Inl EmbeddedNull
            else if path_too_long s \<or> name_too_long (last ?cs) then Inl OtherOSError
            else Inr (put fs (par @ [last ?cs]) (Dir []))) = Inr fs'"
    using assms sw ne par by (simp add: mkdir_def Let_def)
  then have "is_dir_at fs par \<and> \<not> (last ?cs = ''.'' \<or> last ?cs = ''..'')
      \<and> lookup fs (par @ [last ?cs]) = None \<and> fs' = put fs (par @ [last ?cs]) (Dir [])"
    by (auto split: if_splits)
  with sw ne par show ?thesis by (simp add: is_dir_at_kind lookup_None_kind)
qed

text \<open>A directory that \<open>mkdir\<close> creates has a name within the limits.\<close>

lemma mkdir_within_limits:
  assumes "mkdir fs s = Inr fs'"
  shows "CHR 0x00 \<notin> set s \<and> \<not> path_too_long s
    \<and> \<not> name_too_long (last (strip_trailing (split_sep s)))"
proof -
  let ?cs = "strip_trailing (split_sep s)"
  have sw: "startswith s ''/''"
    using assms by (cases "startswith s ''/''") (simp_all add: mkdir_def)
  have ne: "?cs \<noteq> []"
    using assms sw by (cases "?cs = []") (simp_all add: mkdir_def)
  obtain par where par: "namei fs [] (butlast ?cs) = Some par"
    using assms sw ne by (cases "namei fs [] (butlast ?cs)") (simp_all add: mkdir_def Let_def)
  have "(if \<not> is_dir_at fs par then Inl (os_failure s)
         else if last ?cs = ''.'' \<or> last ?cs = ''..'' then Inl FileExistsError
         else if lookup fs (par @ [last ?cs]) \<noteq> None then Inl FileExistsError
         else if CHR 0x00 \<in> set s then Inl EmbeddedNull
         else if path_too_long s \<or> name_too_long (last ?cs) then Inl OtherOSError
         else Inr (put fs (par @ [last ?cs]) (Dir []))) = Inr fs'"
    using assms sw ne par by (simp add: mkdir_def Let_def)
  then show ?thesis by (auto split: if_splits)
qed

lemma mkdir_creates:
  assumes "mkdir fs s = Inr fs'"
  shows "isdir fs' s"
proof -
  let ?cs = "strip_trailing (split_sep s)"
  let ?c = "last ?cs"
  from mkdir_InrD [OF assms] obtain par where sw: "startswith s ''/''" and ne: "?cs \<noteq> []"
    and par: "namei fs [] (butlast ?cs) = Some par"
    and pd: "kind_at fs par = Some KDir"
    and nm: "?c \<noteq> ''.''" "?c \<noteq> ''..''"
    and nx: "kind_at fs (par @ [?c]) = None"
    and fs': "fs' = put fs (par @ [?c]) (Dir [])"
    by blast
  have c0: "?c \<noteq> []" using ne by (rule last_strip_trailing)
  let ?q = "par @ [?c]"
  have k: "\<And>p. kind_at fs' p = (if p = ?q then Some KDir else kind_at fs p)"
    unfolding fs' using kind_put_leaf [of ?q fs "Dir []"] pd nx by simp
  have "namei fs' [] (butlast ?cs) = Some par"
    using _ _ par
  proof (rule namei_mono)
    fix p assume "kind_at fs p = Some KDir"
    then show "kind_at fs' p = Some KDir" by (simp add: k)
  next
    fix p assume "kind_at fs p \<noteq> None"
    then show "kind_at fs' p \<noteq> None" by (simp add: k)
  qed
  moreover have "step fs' par ?c = Some ?q"
    using pd nm c0 by (auto simp: step_kind k)
  ultimately have "namei fs' [] (butlast ?cs @ [?c]) = Some ?q"
    by (simp only: namei_snoc option.case)
  with ne have n: "namei fs' [] ?cs = Some ?q" by simp
  from strip_trailing_decomp [of "split_sep s"] obtain j
    where j: "split_sep s = ?cs @ replicate j []" by blast
  have "namei fs' ?q (replicate j []) = Some ?q"
    by (rule namei_empties_dir) (simp add: k)
  with n have "namei fs' [] (?cs @ replicate j []) = Some ?q"
    by (simp add: namei_append)
  with j have "namei fs' [] (split_sep s) = Some ?q" by simp
  with sw show ?thesis by (simp add: isdir_def resolve_def is_dir_at_kind k)
qed

lemma makedirs_created:
  assumes "makedirs False nm fs = (None, fs1)" and "snd (makedirs_split nm) \<noteq> ''.''"
  shows "isdir fs1 nm"
proof -
  have "\<exists>fsx. mkdir_or_exists False nm fsx = (None, fs1)"
    using assms
    by (subst (asm) makedirs.simps)
       (auto simp: Let_def split: if_splits prod.splits option.splits)
  then obtain fsx where "mkdir_or_exists False nm fsx = (None, fs1)" by blast
  then have "mkdir fsx nm = Inr fs1"
    by (auto simp: mkdir_or_exists_def split: sum.splits)
  then show ?thesis by (rule mkdir_creates)
qed

lemma rmdir_InrD:
  assumes "rmdir fs s = Inr fs'"
  shows "startswith s ''/'' \<and> strip_trailing (split_sep s) \<noteq> [] \<and>
    (\<exists>par. namei fs [] (butlast (strip_trailing (split_sep s))) = Some par
       \<and> kind_at fs par = Some KDir
       \<and> last (strip_trailing (split_sep s)) \<noteq> ''.''
       \<and> last (strip_trailing (split_sep s)) \<noteq> ''..''
       \<and> kind_at fs (par @ [last (strip_trailing (split_sep s))]) = Some KDir
       \<and> fs' = del fs (par @ [last (strip_trailing (split_sep s))]))"
proof -
  let ?cs = "strip_trailing (split_sep s)"
  have sw: "startswith s ''/''"
    using assms by (cases "startswith s ''/''") (simp_all add: rmdir_def)
  have ne: "?cs \<noteq> []"
    using assms sw by (cases "?cs = []") (simp_all add: rmdir_def)
  obtain par where par: "namei fs [] (butlast ?cs) = Some par"
    using assms sw ne by (cases "namei fs [] (butlast ?cs)") (simp_all add: rmdir_def Let_def)
  have i: "(if \<not> is_dir_at fs par then Inl OtherOSError
            else if last ?cs = ''.'' \<or> last ?cs = ''..'' then Inl OtherOSError
            else if lookup fs (par @ [last ?cs]) = Some (Dir [])
                 then Inr (del fs (par @ [last ?cs]))
            else Inl OtherOSError) = Inr fs'"
    using assms sw ne par by (simp add: rmdir_def Let_def)
  then have "is_dir_at fs par \<and> \<not> (last ?cs = ''.'' \<or> last ?cs = ''..'')
      \<and> lookup fs (par @ [last ?cs]) = Some (Dir []) \<and> fs' = del fs (par @ [last ?cs])"
    by (auto split: if_splits)
  with sw ne par show ?thesis by (auto simp: is_dir_at_kind kind_at_def)
qed

lemma rmdir_removes:
  assumes "rmdir fs s = Inr fs'"
  shows "\<not> path_exists fs' s"
proof
  assume "path_exists fs' s"
  then obtain x where x: "namei fs' [] (split_sep s) = Some x"
    by (auto simp: path_exists_def resolve_def split: if_splits)
  let ?cs = "strip_trailing (split_sep s)"
  let ?c = "last ?cs"
  from rmdir_InrD [OF assms] obtain par where sw: "startswith s ''/''" and ne: "?cs \<noteq> []"
    and par: "namei fs [] (butlast ?cs) = Some par"
    and pd: "kind_at fs par = Some KDir"
    and nm: "?c \<noteq> ''.''" "?c \<noteq> ''..''"
    and qd: "kind_at fs (par @ [?c]) = Some KDir"
    and fs': "fs' = del fs (par @ [?c])"
    by blast
  have c0: "?c \<noteq> []" using ne by (rule last_strip_trailing)
  let ?q = "par @ [?c]"
  have k: "\<And>p. kind_at fs' p = (if prefix ?q p then None else kind_at fs p)"
    unfolding fs' by (rule kind_del) simp
  have "namei fs [] (split_sep s) = Some x"
    using _ _ x
  proof (rule namei_mono)
    fix p assume "kind_at fs' p = Some KDir"
    then show "kind_at fs p = Some KDir" by (simp add: k split: if_splits)
  next
    fix p assume "kind_at fs' p \<noteq> None"
    then show "kind_at fs p \<noteq> None" by (simp add: k split: if_splits)
  qed
  moreover have "namei fs [] (split_sep s) = Some ?q"
  proof -
    have "step fs par ?c = Some ?q" using pd nm c0 qd by (auto simp: step_kind)
    with par have "namei fs [] (butlast ?cs @ [?c]) = Some ?q"
      by (simp only: namei_snoc option.case)
    with ne have n: "namei fs [] ?cs = Some ?q" by simp
    from strip_trailing_decomp [of "split_sep s"] obtain j
      where j: "split_sep s = ?cs @ replicate j []" by blast
    have "namei fs ?q (replicate j []) = Some ?q" using qd by (rule namei_empties_dir)
    with n have "namei fs [] (?cs @ replicate j []) = Some ?q" by (simp add: namei_append)
    with j show ?thesis by simp
  qed
  ultimately have "x = ?q" by simp
  moreover have "kind_at fs' x \<noteq> None"
    using x by (rule namei_exists) (simp add: k)
  ultimately show False by (simp add: k)
qed

lemma rmtree_removes:
  assumes "rmtree fs s = (None, fs')"
  shows "\<not> path_exists fs' s"
proof -
  from assms obtain q where "rmdir (put fs q (Dir [])) s = Inr fs'"
    by (auto simp: rmtree_def Let_def split: option.splits if_splits sum.splits)
  then show ?thesis by (rule rmdir_removes)
qed

subsection \<open>Entries of a directory\<close>





text \<open>Joining a directory that resolves with the name of an entry.\<close>

lemma not_startswith_slash: "CHR ''/'' \<notin> set n \<Longrightarrow> \<not> startswith n ''/''"
  by (cases n) (auto simp: startswith_def)

lemma endswith_slash: "endswith s ''/'' = (\<exists>r. s = r @ ''/'')"
proof
  assume "endswith s ''/''"
  then have "s \<noteq> []" and "drop (length s - 1) s = ''/''" by (auto simp: endswith_def)
  then have "last s = CHR ''/''" by (metis last_drop last.simps length_greater_0_conv diff_less zero_less_one)
  with \<open>s \<noteq> []\<close> have "s = butlast s @ ''/''" by (metis append_butlast_last_id)
  then show "\<exists>r. s = r @ ''/''" ..
next
  assume "\<exists>r. s = r @ ''/''"
  then show "endswith s ''/''" by (auto simp: endswith_def)
qed




subsection \<open>Clean absolute paths\<close>

lemma valid_name_no_slash: "valid_name n \<Longrightarrow> CHR ''/'' \<notin> set n"
  by (simp add: valid_name_def)

lemma abs_str_Cons: "abs_str (c # p) = CHR ''/'' # c @ abs_str p"
  by (simp add: abs_str_def)

lemma abs_str_snoc: "abs_str (p @ [c]) = abs_str p @ CHR ''/'' # c"
  by (simp add: abs_str_def)

lemma split_sep_abs_str_aux:
  "CHR ''/'' \<notin> set c \<Longrightarrow> list_all valid_name p \<Longrightarrow> split_sep (c @ abs_str p) = c # p"
proof (induction p arbitrary: c)
  case Nil
  then show ?case by (simp add: abs_str_def split_sep_no_slash)
next
  case (Cons x xs)
  have "split_sep (c @ CHR ''/'' # (x @ abs_str xs)) = split_sep c @ split_sep (x @ abs_str xs)"
    by (rule split_sep_append_slash)
  moreover have "split_sep (x @ abs_str xs) = x # xs"
    using Cons.prems by (intro Cons.IH) (simp_all add: valid_name_def)
  ultimately show ?case using Cons.prems by (simp add: abs_str_Cons split_sep_no_slash)
qed

lemma split_sep_abs_str: "list_all valid_name p \<Longrightarrow> split_sep (abs_str p) = [] # p"
  using split_sep_abs_str_aux [of "[]" p] by simp

lemma startswith_abs_str: "p \<noteq> [] \<Longrightarrow> startswith (abs_str p) ''/''"
  by (cases p) (simp_all add: abs_str_Cons startswith_def)

lemma not_endswith_abs_str:
  assumes "list_all valid_name p"
  shows "\<not> endswith (abs_str p) ''/''"
proof
  assume "endswith (abs_str p) ''/''"
  then obtain r where r: "abs_str p = r @ ''/''" by (auto simp: endswith_slash)
  then have "split_sep (abs_str p) = split_sep r @ [[]]"
    using split_sep_append_slash [of r "[]"] by simp
  with assms have "[] # p = split_sep r @ [[]]" by (simp add: split_sep_abs_str)
  then have "last ([] # p) = []" by simp
  moreover have "p \<noteq> []" using r by (auto simp: abs_str_def)
  ultimately have "last p = []" by simp
  with assms \<open>p \<noteq> []\<close> show False
    by (metis last_in_set list_all_iff valid_name_def)
qed

lemma path_join_abs_str:
  assumes "list_all valid_name p" and "p \<noteq> []" and "valid_name n"
  shows "path_join (abs_str p) n = abs_str (p @ [n])"
proof -
  have "\<not> startswith n ''/''"
    using assms(3) by (intro not_startswith_slash) (simp add: valid_name_def)
  moreover have "abs_str p \<noteq> []" using assms(2) by (cases p) (simp_all add: abs_str_Cons)
  ultimately show ?thesis
    using not_endswith_abs_str [OF assms(1)] by (simp add: path_join_def abs_str_snoc)
qed

lemma join_sep_abs_str: "p \<noteq> [] \<Longrightarrow> CHR ''/'' # join_sep p = abs_str p"
  by (induction p rule: join_sep.induct) (simp_all add: abs_str_Cons abs_str_def)

lemma foldl_norm_step_valid:
  "list_all valid_name p \<Longrightarrow> foldl (norm_step s) acc p = acc @ p"
  by (induction p arbitrary: acc) (auto simp: norm_step_def valid_name_def)

lemma normpath_abs_str:
  assumes "list_all valid_name p" and "p \<noteq> []"
  shows "normpath (abs_str p) = abs_str p"
proof -
  obtain c cs where p: "p = c # cs" using assms(2) by (cases p) auto
  with assms(1) obtain x xs where c: "c = x # xs" "x \<noteq> CHR ''/''"
    by (cases c) (auto simp: valid_name_def)
  have s1: "startswith (abs_str p) ''/''" using assms(2) by (rule startswith_abs_str)
  have s2: "\<not> startswith (abs_str p) ''//''"
    using p c by (simp add: abs_str_Cons startswith_def)
  have f: "foldl (norm_step 1) [] (split_sep (abs_str p)) = p"
    using assms(1) by (simp add: split_sep_abs_str norm_step_def foldl_norm_step_valid)
  have ne: "abs_str p \<noteq> []" using p by (simp add: abs_str_Cons)
  show ?thesis
    using s1 s2 f ne join_sep_abs_str [OF assms(2)]
    by (simp add: normpath_def Let_def)
qed

lemma abspath_abs_str:
  "list_all valid_name p \<Longrightarrow> p \<noteq> [] \<Longrightarrow> abspath cwd (abs_str p) = abs_str p"
  by (simp add: abspath_def startswith_abs_str normpath_abs_str)




text \<open>The workspace of a server started in a directory with a clean absolute path.\<close>

lemma WORKSPACE_abs_str:
  assumes "list_all valid_name cs" and "cs \<noteq> []"
  shows "WORKSPACE (abs_str cs) = abs_str (cs @ [''workspace''])"
proof -
  have v: "valid_name ''workspace''" by (simp add: valid_name_def)
  have "path_join (abs_str cs) ''workspace'' = abs_str (cs @ [''workspace''])"
    using assms v by (rule path_join_abs_str)
  moreover have "\<not> startswith ''workspace'' ''/''" by (simp add: startswith_def)
  moreover have "normpath (abs_str (cs @ [''workspace''])) = abs_str (cs @ [''workspace''])"
    using assms v by (intro normpath_abs_str) simp_all
  ultimately show ?thesis by (simp add: WORKSPACE_def abspath_def)
qed

text \<open>Resolution of clean paths.\<close>

lemma namei_valid:
  "list_all valid_name p \<Longrightarrow> kind_at fs (cur @ p) \<noteq> None \<Longrightarrow> namei fs cur p = Some (cur @ p)"
proof (induction p arbitrary: cur)
  case Nil
  then show ?case by simp
next
  case (Cons c p)
  from Cons.prems(2) have e: "kind_at fs ((cur @ [c]) @ p) \<noteq> None" by simp
  then obtain k where k: "kind_at fs ((cur @ [c]) @ p) = Some k" by auto
  have ce: "kind_at fs (cur @ [c]) \<noteq> None"
  proof (cases "p = []")
    case True
    with e show ?thesis by simp
  next
    case False
    from kind_at_append_dir [OF k False] show ?thesis by simp
  qed
  then obtain k' where "kind_at fs (cur @ [c]) = Some k'" by auto
  then have cd: "kind_at fs cur = Some KDir" by (rule kind_at_append_dir) simp
  have "step fs cur c = Some (cur @ [c])"
    using Cons.prems(1) cd ce by (simp add: step_kind valid_name_def)
  moreover have "namei fs (cur @ [c]) p = Some ((cur @ [c]) @ p)"
    using Cons.prems(1) e by (intro Cons.IH) simp_all
  ultimately show ?case by simp
qed

lemma resolve_abs_str:
  assumes "list_all valid_name p" and "p \<noteq> []" and "kind_at fs p \<noteq> None"
  shows "resolve fs (abs_str p) = Some p"
proof -
  from assms(3) obtain k where "kind_at fs ([] @ p) = Some k" by auto
  then have rd: "kind_at fs [] = Some KDir" using assms(2) by (rule kind_at_append_dir)
  have "namei fs [] p = Some p" using namei_valid [OF assms(1), of fs "[]"] assms(3) by simp
  with rd have "namei fs [] ([] # p) = Some p" by (simp add: step_kind)
  then show ?thesis
    using assms(1,2) by (simp add: resolve_def split_sep_abs_str startswith_abs_str)
qed

subsection \<open>The walk\<close>





subsection \<open>The files below a directory\<close>








subsection \<open>The result of find_files\<close>






subsection \<open>The result of search_files\<close>



lemma search_files_never_fails: "\<exists>res. search_files cwd q ext fs = (Inr res, fs)"
  by (simp add: search_files_def)











subsection \<open>Where containment and the root guard do hold\<close>

text \<open>Without a \<open>..\<close> component, resolution only descends.\<close>

lemma namei_descends:
  "namei fs cur cs = Some q \<Longrightarrow> ''..'' \<notin> set cs \<Longrightarrow> prefix cur q"
proof (induction cs arbitrary: cur)
  case Nil
  then show ?case by simp
next
  case (Cons c cs)
  then obtain m where m: "step fs cur c = Some m" and r: "namei fs m cs = Some q"
    by (auto split: option.splits)
  from m Cons.prems(2) have "prefix cur m" by (auto simp: step_kind split: if_splits)
  moreover from Cons.IH [OF r] Cons.prems(2) have "prefix m q" by simp
  ultimately show ?case by (rule prefix_order.trans)
qed

lemma split_sep_join_relative:
  assumes "list_all valid_name ws" and "ws \<noteq> []" and "\<not> startswith d ''/''"
  shows "split_sep (path_join (abs_str ws) d) = [] # ws @ split_sep d"
proof -
  have "abs_str ws \<noteq> []" using assms(2) by (cases ws) (simp_all add: abs_str_Cons)
  then have "path_join (abs_str ws) d = abs_str ws @ CHR ''/'' # d"
    using assms(3) not_endswith_abs_str [OF assms(1)] by (simp add: path_join_def)
  then show ?thesis
    using split_sep_append_slash [of "abs_str ws" d] assms(1) by (simp add: split_sep_abs_str)
qed

lemma relative_argument_stays_inside:
  assumes "list_all valid_name ws" and "ws \<noteq> []" and "WORKSPACE cwd = abs_str ws"
    and "\<not> startswith d ''/''" and "''..'' \<notin> set (split_sep d)"
    and "resolve fs (path_join (WORKSPACE cwd) d) = Some q"
  shows "prefix ws q"
proof -
  from assms(6) have "namei fs [] ([] # ws @ split_sep d) = Some q"
    using split_sep_join_relative [OF assms(1,2,4)] assms(3)
    by (auto simp: resolve_def split: if_splits)
  then have n: "namei fs [] (([] # ws) @ split_sep d) = Some q" by simp
  then obtain m where m: "namei fs [] ([] # ws) = Some m" and r: "namei fs m (split_sep d) = Some q"
    by (auto simp only: namei_append split: option.splits)
  have "''..'' \<notin> set ([] # ws)" using assms(1) by (auto simp: list_all_iff valid_name_def)
  from m have "kind_at fs m \<noteq> None" by (rule namei_exists) simp
  from m obtain m0 where "step fs [] [] = Some m0" and m1: "namei fs m0 ws = Some m"
    by (auto split: option.splits)
  then have "m0 = []" by (auto simp: step_kind split: if_splits)
  have "m = ws"
  proof -
    have "list_all (\<lambda>c. c \<noteq> [] \<and> c \<noteq> ''.'' \<and> c \<noteq> ''..'') ws"
      using assms(1) by (simp add: list_all_iff valid_name_def)
    then have g: "namei fs cur ws = Some x \<Longrightarrow> x = cur @ ws" for cur x
    proof (induction ws arbitrary: cur)
      case Nil
      then show ?case by simp
    next
      case (Cons c cs)
      from Cons.prems(1) obtain y where y: "step fs cur c = Some y" and z: "namei fs y cs = Some x"
        by (auto split: option.splits)
      from y Cons.prems(2) have "y = cur @ [c]" by (auto simp: step_kind split: if_splits)
      with Cons.IH [OF z] Cons.prems(2) show ?case by simp
    qed
    from m1 \<open>m0 = []\<close> have "namei fs [] ws = Some m" by simp
    from g [OF this] show ?thesis by simp
  qed
  with namei_descends [OF r assms(5)] show ?thesis by simp
qed

text \<open>What the kernel resolves, \<open>normpath\<close> computes from the string.\<close>

lemma namei_norm:
  "namei fs cur cs = Some q \<Longrightarrow> ''..'' \<notin> set cur
   \<Longrightarrow> foldl (norm_step (Suc k)) cur cs = q \<and> ''..'' \<notin> set q"
proof (induction cs arbitrary: cur)
  case Nil
  then show ?case by simp
next
  case (Cons c cs)
  then obtain m where m: "step fs cur c = Some m" and r: "namei fs m cs = Some q"
    by (auto split: option.splits)
  have nb: "''..'' \<notin> set (butlast cur)" using Cons.prems(2) by (auto dest: in_set_butlastD)
  have ns: "norm_step (Suc k) cur c = m"
  proof (cases "c = [] \<or> c = ''.''")
    case True
    with m show ?thesis by (auto simp: step_kind norm_step_def split: if_splits)
  next
    case False
    show ?thesis
    proof (cases "c = ''..''")
      case True
      with m have "m = butlast cur" by (auto simp: step_kind split: if_splits)
      moreover have "cur \<noteq> [] \<Longrightarrow> last cur \<noteq> ''..''"
        using Cons.prems(2) last_in_set [of cur] by metis
      ultimately show ?thesis using True by (cases "cur = []") (simp_all add: norm_step_def)
    next
      case nd: False
      with False m have "m = cur @ [c]" by (auto simp: step_kind split: if_splits)
      with False nd show ?thesis by (simp add: norm_step_def)
    qed
  qed
  have "''..'' \<notin> set m"
    using m Cons.prems(2) nb by (auto simp: step_kind split: if_splits)
  from Cons.IH [OF r this] ns show ?case by simp
qed

lemma abspath_of_resolved:
  assumes "resolve fs s = Some q" and "q \<noteq> []"
    and "\<not> (startswith s ''//'' \<and> \<not> startswith s ''///'')"
  shows "abspath cwd s = abs_str q"
proof -
  from assms(1) have sw: "startswith s ''/''" and n: "namei fs [] (split_sep s) = Some q"
    by (auto simp: resolve_def split: if_splits)
  from namei_norm [OF n, of 0] have f: "foldl (norm_step 1) [] (split_sep s) = q" by simp
  have ne: "s \<noteq> []" using sw by (auto simp: startswith_def)
  have sl: "(if startswith s ''//'' \<and> \<not> startswith s ''///'' then 2
             else if startswith s ''/'' then 1 else 0) = (1 :: nat)"
    using sw assms(3) by (cases "startswith s ''//''") simp_all
  have "normpath s = (if CHR ''/'' # join_sep q = [] then ''.'' else CHR ''/'' # join_sep q)"
    unfolding normpath_def Let_def sl using ne f by simp
  then have "normpath s = CHR ''/'' # join_sep q" by simp
  with sw assms(2) show ?thesis by (simp add: abspath_def join_sep_abs_str)
qed

text \<open>
  The guard of \<open>delete_directory\<close> holds for every alias of the workspace root other than
  those that start with exactly two slashes.
\<close>

lemma root_guard_without_double_slash:
  assumes "list_all valid_name ws" and "ws \<noteq> []" and "WORKSPACE cwd = abs_str ws"
    and "is_dir_at fs ws"
    and "resolve fs (path_join (WORKSPACE cwd) d) = Some ws"
    and "\<not> (startswith (path_join (WORKSPACE cwd) d) ''//''
            \<and> \<not> startswith (path_join (WORKSPACE cwd) d) ''///'')"
  shows "delete_directory cwd d fs = (Inl PermissionDenied, fs)"
proof -
  let ?p = "path_join (WORKSPACE cwd) d"
  have "abspath cwd ?p = abs_str ws" using assms(5,2,6) by (rule abspath_of_resolved)
  moreover have "abspath cwd (WORKSPACE cwd) = abs_str ws"
    using assms(1,2,3) by (simp add: abspath_abs_str)
  moreover have "path_exists fs ?p" using assms(5) by (simp add: path_exists_def)
  moreover have "isdir fs ?p" using assms(4,5) by (simp add: isdir_def)
  ultimately show ?thesis by (simp add: delete_directory_def)
qed

subsection \<open>Creating the directories of a clean path\<close>

lemma namei_valid_result:
  "list_all valid_name p \<Longrightarrow> namei fs cur p = Some x \<Longrightarrow> x = cur @ p"
proof (induction p arbitrary: cur)
  case Nil
  then show ?case by simp
next
  case (Cons c cs)
  from Cons.prems(2) obtain y where y: "step fs cur c = Some y" and z: "namei fs y cs = Some x"
    by (auto split: option.splits)
  from y Cons.prems(1) have "y = cur @ [c]"
    by (auto simp: step_kind valid_name_def split: if_splits)
  with Cons.IH [OF _ z] Cons.prems(1) show ?case by simp
qed

lemma resolve_abs_str_iff:
  assumes "list_all valid_name p" and "p \<noteq> []"
  shows "resolve fs (abs_str p) = (if kind_at fs p = None then None else Some p)"
proof (cases "kind_at fs p = None")
  case False
  with resolve_abs_str [OF assms] show ?thesis by simp
next
  case True
  have "resolve fs (abs_str p) = None"
  proof (cases "resolve fs (abs_str p)")
    case None
    then show ?thesis .
  next
    case (Some q)
    then have n: "namei fs [] ([] # p) = Some q"
      using assms(1) by (auto simp: resolve_def split_sep_abs_str split: if_splits)
    then obtain m where "step fs [] [] = Some m" and r: "namei fs m p = Some q"
      by (auto split: option.splits)
    then have "m = []" by (auto simp: step_kind split: if_splits)
    with namei_valid_result [OF assms(1) r] have "q = p" by simp
    moreover from n have "kind_at fs q \<noteq> None" by (rule namei_exists) simp
    ultimately show ?thesis using True by simp
  qed
  with True show ?thesis by simp
qed
















subsection \<open>Writing below directories that do not exist yet\<close>





subsection \<open>Scans without a workspace directory\<close>

text \<open>When the workspace directory is gone, the walk is empty and so are the results.\<close>

lemma walk_without_workspace:
  assumes "list_all valid_name ws" and "ws \<noteq> []" and "WORKSPACE cwd = abs_str ws"
    and "lookup fs ws = None"
  shows "walk fs (WORKSPACE cwd) = []"
proof -
  have "kind_at fs ws = None" using assms(4) by (simp add: kind_at_def)
  then have "resolve fs (abs_str ws) = None" using assms(1,2) by (simp add: resolve_abs_str_iff)
  then show ?thesis using assms(3) by (simp add: walk_def)
qed

lemma scan_without_workspace:
  assumes "list_all valid_name ws" and "ws \<noteq> []" and "WORKSPACE cwd = abs_str ws"
    and "lookup fs ws = None"
  shows "search_files cwd q ext fs = (Inr [], fs)" and "find_files cwd pat fs = (Inr [], fs)"
  using walk_without_workspace [OF assms]
  by (simp_all add: search_files_def find_files_def)

section \<open>The claims\<close>

subsection \<open>Directory targets of append_file and delete_file\<close>

text \<open>
  C10. When the target exists and is a directory, \<open>append_file\<close> raises the "File not found"
  error (kind NotFound), the error it also raises for a target that does not exist, because
  it only tests \<open>os.path.isfile\<close>; \<open>delete_file\<close> raises "Use delete_directory for
  directories" (kind InvalidArgument) for the same target. Neither changes the file system.
\<close>

theorem append_file_directory_is_not_found:
  assumes "isdir fs (path_join (WORKSPACE cwd) f)"
  shows "append_file cwd f c fs = (Inl NotFound, fs)
       \<and> delete_file cwd f fs = (Inl InvalidArgument, fs)
       \<and> (\<forall>g. \<not> path_exists fs (path_join (WORKSPACE cwd) g)
               \<longrightarrow> append_file cwd g c fs = (Inl NotFound, fs))"
proof -
  from assms have "\<not> isfile fs (path_join (WORKSPACE cwd) f)"
    by (rule isdir_not_isfile)
  then have a: "append_file cwd f c fs = (Inl NotFound, fs)"
    by (simp add: append_file_def)
  from assms have "path_exists fs (path_join (WORKSPACE cwd) f)"
    by (rule isdir_exists)
  with assms have d: "delete_file cwd f fs = (Inl InvalidArgument, fs)"
    by (simp add: delete_file_def)
  have m: "\<forall>g. \<not> path_exists fs (path_join (WORKSPACE cwd) g)
               \<longrightarrow> append_file cwd g c fs = (Inl NotFound, fs)"
    using isfile_exists by (auto simp: append_file_def Let_def)
  from a d m show ?thesis by blast
qed

theorem append_file_directory_is_not_found_witness:
  "isdir example_fs (path_join (WORKSPACE ''/srv'') ''sub'')
   \<and> \<not> path_exists example_fs (path_join (WORKSPACE ''/srv'') ''nosuch'')
   \<and> append_file ''/srv'' ''sub'' ''x'' example_fs = (Inl NotFound, example_fs)
   \<and> delete_file ''/srv'' ''sub'' example_fs = (Inl InvalidArgument, example_fs)
   \<and> append_file ''/srv'' ''nosuch'' ''x'' example_fs = (Inl NotFound, example_fs)"
proof -
  have h: "isdir example_fs (path_join (WORKSPACE ''/srv'') ''sub'')"
    by code_simp
  have n: "\<not> path_exists example_fs (path_join (WORKSPACE ''/srv'') ''nosuch'')"
    by code_simp
  from append_file_directory_is_not_found [OF h, of "''x''"] h n show ?thesis
    by blast
qed

subsection \<open>Errors leave the file system alone\<close>

lemma list_files_state: "snd (list_files cwd d fs) = fs"
  by (simp add: list_files_def Let_def split: sum.split)

lemma read_file_state: "snd (read_file cwd f fs) = fs"
  by (simp add: read_file_def Let_def split: sum.split)

lemma write_file_unclassified: "fst (write_file cwd f t fs) = Inl e \<Longrightarrow> \<not> classified e"
  by (auto simp add: write_file_def classified_def Let_def split: prod.splits option.splits sum.splits)

lemma append_file_atomic: "fst (append_file cwd f t fs) = Inl e \<Longrightarrow> snd (append_file cwd f t fs) = fs"
  by (simp add: append_file_def Let_def split: sum.splits if_splits)

lemma delete_file_atomic: "fst (delete_file cwd f fs) = Inl e \<Longrightarrow> snd (delete_file cwd f fs) = fs"
  by (simp add: delete_file_def Let_def split: sum.splits if_splits)

lemma create_directory_atomic:
  "fst (create_directory cwd d fs) = Inl e \<Longrightarrow> classified e \<Longrightarrow> snd (create_directory cwd d fs) = fs"
  by (auto simp: create_directory_def classified_def Let_def
           split: if_splits prod.splits option.splits)

lemma delete_directory_atomic:
  "fst (delete_directory cwd d fs) = Inl e \<Longrightarrow> classified e \<Longrightarrow> snd (delete_directory cwd d fs) = fs"
  by (auto simp: delete_directory_def classified_def Let_def
           split: if_splits prod.splits option.splits)

lemma file_info_state: "snd (file_info cwd f fs) = fs"
  by (simp add: file_info_def Let_def split: sum.split)

lemma search_files_state: "snd (search_files cwd q ext fs) = fs"
  by (simp add: search_files_def)

lemma find_files_state: "snd (find_files cwd pat fs) = fs"
  by (simp add: find_files_def)

lemma get_workspace_info_state: "snd (get_workspace_info cwd fs) = fs"
  by (simp add: get_workspace_info_def Let_def)

lemma tag_Inl: "tag f r = (Inl e, fs') \<Longrightarrow> fst r = Inl e \<and> snd r = fs'"
  by (cases r) (auto simp: tag_def split: sum.splits)

text \<open>
  C9. Whatever the operation and its arguments, a call that ends in one of the four
  classified errors (NotFound, InvalidArgument, AlreadyExists, PermissionDenied) returns the
  file system it was given: each of these errors is raised by a test that precedes every
  mutating call.
\<close>

theorem classified_error_is_atomic:
  assumes "run cwd c fs = (Inl e, fs')" and "classified e"
  shows "fs' = fs"
proof (cases c)
  case (List_files d)
  with assms(1) show ?thesis
    using tag_Inl [of Names "list_files cwd d fs" e fs'] by (simp add: run_def list_files_state)
next
  case (Read_file f)
  with assms(1) show ?thesis
    using tag_Inl [of Content "read_file cwd f fs" e fs'] by (simp add: run_def read_file_state)
next
  case (Write_file f t)
  with assms show ?thesis
    using tag_Inl [of "\<lambda>u. Done" "write_file cwd f t fs" e fs'] write_file_unclassified [of cwd f t fs e]
    by (simp add: run_def)
next
  case (Append_file f t)
  with assms(1) show ?thesis
    using tag_Inl [of "\<lambda>u. Done" "append_file cwd f t fs" e fs'] append_file_atomic [of cwd f t fs e]
    by (simp add: run_def)
next
  case (Delete_file f)
  with assms(1) show ?thesis
    using tag_Inl [of "\<lambda>u. Done" "delete_file cwd f fs" e fs'] delete_file_atomic [of cwd f fs e]
    by (simp add: run_def)
next
  case (Create_directory d)
  with assms show ?thesis
    using tag_Inl [of "\<lambda>u. Done" "create_directory cwd d fs" e fs']
      create_directory_atomic [of cwd d fs e]
    by (simp add: run_def)
next
  case (Delete_directory d)
  with assms show ?thesis
    using tag_Inl [of "\<lambda>u. Done" "delete_directory cwd d fs" e fs']
      delete_directory_atomic [of cwd d fs e]
    by (simp add: run_def)
next
  case (File_info f)
  with assms(1) show ?thesis
    using tag_Inl [of Information "file_info cwd f fs" e fs'] by (simp add: run_def file_info_state)
next
  case (Search_files q ext)
  with assms(1) show ?thesis
    using tag_Inl [of Matches "search_files cwd q ext fs" e fs']
    by (simp add: run_def search_files_state)
next
  case (Find_files pat)
  with assms(1) show ?thesis
    using tag_Inl [of Names "find_files cwd pat fs" e fs'] by (simp add: run_def find_files_state)
next
  case Get_workspace_info
  with assms(1) show ?thesis
    using tag_Inl [of Counts "get_workspace_info cwd fs" e fs']
    by (simp add: run_def get_workspace_info_state)
qed

theorem classified_error_is_atomic_witness:
  "run ''/srv'' (Delete_directory ''.'') example_fs = (Inl PermissionDenied, example_fs)
   \<and> classified PermissionDenied"
proof -
  have r: "run ''/srv'' (Delete_directory ''.'') example_fs
             = (Inl PermissionDenied, snd (run ''/srv'' (Delete_directory ''.'') example_fs))"
    by code_simp
  have c: "classified PermissionDenied"
    by (simp add: classified_def)
  from classified_error_is_atomic [OF r c] r c show ?thesis
    by simp
qed

text \<open>
  The restriction to the classified errors matters: \<open>write_file\<close> creates the parent
  directories before it opens the target, and when the open fails they stay.
\<close>

lemma write_file_failure_keeps_directories:
  "write_file ''/srv'' ''new/dir/'' ''x'' example_fs
     = (Inl (Sys OtherOSError),
        put example_fs [''srv'', ''workspace'', ''new''] (Dir [(''dir'', Dir [])]))"
  by code_simp

subsection \<open>Containment in the workspace\<close>

text \<open>
  C1. The claim: the path an operation resolves stays inside the workspace, and an argument
  whose resolution leaves it is rejected. No operation tests the joined path. In the
  example workspace the argument \<open>../secret\<close>, and likewise the absolute \<open>/srv/secret\<close>,
  resolves to a file outside \<open>/srv/workspace\<close>; \<open>read_file\<close> returns its content,
  \<open>list_files\<close> lists the parent directory and \<open>delete_file\<close> removes the file.
\<close>

theorem path_traversal_leaves_workspace:
  "resolve example_fs (WORKSPACE ''/srv'') = Some [''srv'', ''workspace'']
   \<and> resolve example_fs (path_join (WORKSPACE ''/srv'') ''../secret'') = Some [''srv'', ''secret'']
   \<and> read_file ''/srv'' ''../secret'' example_fs = (Inr ''key'', example_fs)
   \<and> read_file ''/srv'' ''/srv/secret'' example_fs = (Inr ''key'', example_fs)
   \<and> list_files ''/srv'' ''..'' example_fs = (Inr [''workspace/'', ''secret''], example_fs)
   \<and> delete_file ''/srv'' ''../secret'' example_fs = (Inr (), del example_fs [''srv'', ''secret''])
   \<and> lookup (del example_fs [''srv'', ''secret'']) [''srv'', ''secret''] = None"
  by code_simp

subsection \<open>The guard of delete_directory\<close>

text \<open>
  C2. The claim: \<open>delete_directory\<close> refuses every argument that names the workspace root.
  The guard compares \<open>os.path.abspath\<close> of the joined path with that of \<open>WORKSPACE\<close>, and
  \<open>normpath\<close> keeps a prefix of exactly two slashes. The root written with two leading
  slashes resolves to the workspace root, is not equal to it as a string, and the whole
  workspace is removed; with one leading slash the guard holds.
\<close>

theorem doubled_slash_alias_deletes_root:
  "resolve example_fs (WORKSPACE ''/srv'') = Some [''srv'', ''workspace'']
   \<and> resolve example_fs (path_join (WORKSPACE ''/srv'') ''//srv/workspace'')
       = Some [''srv'', ''workspace'']
   \<and> abspath ''/srv'' (path_join (WORKSPACE ''/srv'') ''//srv/workspace'') = ''//srv/workspace''
   \<and> abspath ''/srv'' (WORKSPACE ''/srv'') = ''/srv/workspace''
   \<and> delete_directory ''/srv'' ''//srv/workspace'' example_fs
       = (Inr (), Dir [(''srv'', Dir [(''secret'', File (Text ''key''))])])
   \<and> delete_directory ''/srv'' ''/srv/workspace'' example_fs = (Inl PermissionDenied, example_fs)"
  by code_simp

subsection \<open>Appending\<close>

text \<open>
  C4, as the code has it. When \<open>f\<close> names a file holding the text \<open>c0\<close>, two calls of
  \<open>append_file\<close> with \<open>c1\<close> and \<open>c2\<close> succeed and \<open>read_file\<close> then returns
  \<open>c0 @ c1 @ c2\<close> with universal newlines applied (the file is read in text mode); that is
  \<open>c0 @ c1 @ c2\<close> itself when it holds no carriage return. When \<open>f\<close> names no regular
  file, \<open>append_file\<close> raises the NotFound error and changes nothing.
\<close>

theorem append_twice_then_read:
  "(file_text fs (path_join (WORKSPACE cwd) f) = Some c0 \<longrightarrow>
      (\<exists>fs1 fs2. append_file cwd f c1 fs = (Inr (), fs1)
         \<and> append_file cwd f c2 fs1 = (Inr (), fs2)
         \<and> read_file cwd f fs2 = (Inr (universal_newlines (c0 @ c1 @ c2)), fs2)
         \<and> (CHR 0x0D \<notin> set (c0 @ c1 @ c2) \<longrightarrow>
              read_file cwd f fs2 = (Inr (c0 @ c1 @ c2), fs2))))
   \<and> (\<not> isfile fs (path_join (WORKSPACE cwd) f) \<longrightarrow>
        append_file cwd f c1 fs = (Inl NotFound, fs))"
proof (intro conjI impI)
  let ?p = "path_join (WORKSPACE cwd) f"
  assume t0: "file_text fs ?p = Some c0"
  from file_text_append [OF t0, of c1] obtain fs1
    where a1: "append_text fs ?p c1 = Inr fs1" and t1: "file_text fs1 ?p = Some (c0 @ c1)"
      and i0: "isfile fs ?p" by blast
  from file_text_append [OF t1, of c2] obtain fs2
    where a2: "append_text fs1 ?p c2 = Inr fs2" and t2: "file_text fs2 ?p = Some ((c0 @ c1) @ c2)"
      and i1: "isfile fs1 ?p" by blast
  from file_text_read [OF t2]
  have r: "read_text fs2 ?p = Inr (universal_newlines (c0 @ c1 @ c2))" and i2: "isfile fs2 ?p"
    by simp_all
  have 1: "append_file cwd f c1 fs = (Inr (), fs1)" using a1 i0 by (simp add: append_file_def)
  have 2: "append_file cwd f c2 fs1 = (Inr (), fs2)" using a2 i1 by (simp add: append_file_def)
  have 3: "read_file cwd f fs2 = (Inr (universal_newlines (c0 @ c1 @ c2)), fs2)"
    using r i2 by (simp add: read_file_def)
  have 4: "CHR 0x0D \<notin> set (c0 @ c1 @ c2) \<longrightarrow> read_file cwd f fs2 = (Inr (c0 @ c1 @ c2), fs2)"
    using 3 universal_newlines_id [of "c0 @ c1 @ c2"] by auto
  from 1 2 3 4
  show "\<exists>fs1 fs2. append_file cwd f c1 fs = (Inr (), fs1)
         \<and> append_file cwd f c2 fs1 = (Inr (), fs2)
         \<and> read_file cwd f fs2 = (Inr (universal_newlines (c0 @ c1 @ c2)), fs2)
         \<and> (CHR 0x0D \<notin> set (c0 @ c1 @ c2) \<longrightarrow>
              read_file cwd f fs2 = (Inr (c0 @ c1 @ c2), fs2))"
    by blast
next
  assume "\<not> isfile fs (path_join (WORKSPACE cwd) f)"
  then show "append_file cwd f c1 fs = (Inl NotFound, fs)" by (simp add: append_file_def)
qed

theorem append_twice_then_read_witness:
  "file_text example_fs (path_join (WORKSPACE ''/srv'') ''a.txt'') = Some ''two''
   \<and> \<not> isfile example_fs (path_join (WORKSPACE ''/srv'') ''nosuch'')
   \<and> (\<exists>fs1 fs2. append_file ''/srv'' ''a.txt'' ''!'' example_fs = (Inr (), fs1)
         \<and> append_file ''/srv'' ''a.txt'' ''?'' fs1 = (Inr (), fs2)
         \<and> read_file ''/srv'' ''a.txt'' fs2 = (Inr ''two!?'', fs2))
   \<and> append_file ''/srv'' ''nosuch'' ''!'' example_fs = (Inl NotFound, example_fs)"
proof -
  have h1: "file_text example_fs (path_join (WORKSPACE ''/srv'') ''a.txt'') = Some ''two''"
    by code_simp
  have h2: "\<not> isfile example_fs (path_join (WORKSPACE ''/srv'') ''nosuch'')"
    by code_simp
  have c: "CHR 0x0D \<notin> set (''two'' @ ''!'' @ ''?'')"
    by simp
  from append_twice_then_read [of example_fs "''/srv''" "''a.txt''" "''two''" "''!''" "''?''"] h1 c
  have a: "\<exists>fs1 fs2. append_file ''/srv'' ''a.txt'' ''!'' example_fs = (Inr (), fs1)
         \<and> append_file ''/srv'' ''a.txt'' ''?'' fs1 = (Inr (), fs2)
         \<and> read_file ''/srv'' ''a.txt'' fs2 = (Inr (''two'' @ ''!'' @ ''?''), fs2)"
    by blast
  from append_twice_then_read [of example_fs "''/srv''" "''nosuch''" "''two''" "''!''" "''?''"] h2
  have b: "append_file ''/srv'' ''nosuch'' ''!'' example_fs = (Inl NotFound, example_fs)"
    by blast
  from h1 h2 a b show ?thesis by simp
qed



text \<open>
  C4 as stated fails when a carriage return is appended: \<open>a.txt\<close> holds \<open>two\<close>; after
  appending a carriage return and then \<open>x\<close>, \<open>read_file\<close> returns \<open>two\<close>, a line feed and
  \<open>x\<close>, not the concatenation.
\<close>

theorem append_carriage_return_counterexample:
  "file_text example_fs (path_join (WORKSPACE ''/srv'') ''a.txt'') = Some ''two''
   \<and> read_file ''/srv'' ''a.txt'' example_fs = (Inr ''two'', example_fs)
   \<and> fst (append_file ''/srv'' ''a.txt'' [CHR 0x0D] example_fs) = Inr ()
   \<and> fst (append_file ''/srv'' ''a.txt'' ''x''
            (snd (append_file ''/srv'' ''a.txt'' [CHR 0x0D] example_fs))) = Inr ()
   \<and> fst (read_file ''/srv'' ''a.txt''
            (snd (append_file ''/srv'' ''a.txt'' ''x''
                   (snd (append_file ''/srv'' ''a.txt'' [CHR 0x0D] example_fs)))))
       = Inr (''two'' @ [CHR 0x0A] @ ''x'')
   \<and> ''two'' @ [CHR 0x0A] @ ''x'' \<noteq> ''two'' @ [CHR 0x0D] @ ''x''"
  by code_simp

subsection \<open>Writing and reading back\<close>




text \<open>
  Names that the system refuses: a file name with a NUL is refused by \<open>open\<close> and by
  \<open>os.mkdir\<close> with a \<open>ValueError\<close>, a component of 256 bytes with \<open>ENAMETOOLONG\<close>; 255 bytes
  are accepted, and 128 two-byte characters are 256 bytes. Nothing is created.
\<close>

lemma refused_names:
  "write_file ''/srv'' [CHR ''a'', CHR 0x00] ''x'' example_fs
     = (Inl (Sys EmbeddedNull), example_fs)
   \<and> write_file ''/srv'' (replicate 256 (CHR ''n'')) ''x'' example_fs
     = (Inl (Sys OtherOSError), example_fs)
   \<and> fst (write_file ''/srv'' (replicate 255 (CHR ''n'')) ''x'' example_fs) = Inr ()
   \<and> write_file ''/srv'' (replicate 128 (CHR 0xE9)) ''x'' example_fs
     = (Inl (Sys OtherOSError), example_fs)
   \<and> write_file ''/srv'' ([CHR ''n'', CHR 0x00] @ ''/x'') ''x'' example_fs
     = (Inl (Sys EmbeddedNull), example_fs)
   \<and> create_directory ''/srv'' [CHR ''a'', CHR 0x00, CHR ''b''] example_fs
     = (Inl (Sys EmbeddedNull), example_fs)
   \<and> create_directory ''/srv'' (replicate 256 (CHR ''n'')) example_fs
     = (Inl (Sys OtherOSError), example_fs)
   \<and> fst (create_directory ''/srv'' (replicate 255 (CHR ''n'')) example_fs) = Inr ()"
  by code_simp

subsection \<open>Creating or deleting a directory twice\<close>

text \<open>
  C7, as the code has it. When \<open>create_directory d\<close> succeeds and the last component of
  \<open>d\<close> (the tail that \<open>makedirs\<close> splits off) is not \<open>.\<close>, a second call right after it
  raises the AlreadyExists error; whenever \<open>d\<close> exists already, as a file or a directory,
  the call raises that error and changes nothing. When \<open>delete_directory d\<close> succeeds, a
  second call right after it raises the NotFound error.
\<close>

theorem create_or_delete_directory_twice:
  "(create_directory cwd d fs = (Inr (), fs1)
      \<and> snd (makedirs_split (path_join (WORKSPACE cwd) d)) \<noteq> ''.''
      \<longrightarrow> create_directory cwd d fs1 = (Inl AlreadyExists, fs1))
   \<and> (path_exists fs (path_join (WORKSPACE cwd) d)
      \<longrightarrow> create_directory cwd d fs = (Inl AlreadyExists, fs))
   \<and> (delete_directory cwd d fs = (Inr (), fs1)
      \<longrightarrow> delete_directory cwd d fs1 = (Inl NotFound, fs1))"
proof (intro conjI impI)
  let ?p = "path_join (WORKSPACE cwd) d"
  assume a: "create_directory cwd d fs = (Inr (), fs1) \<and> snd (makedirs_split ?p) \<noteq> ''.''"
  then have "makedirs False ?p fs = (None, fs1)"
    by (auto simp: create_directory_def Let_def split: if_splits prod.splits option.splits)
  with a have "isdir fs1 ?p" using makedirs_created by blast
  then have "path_exists fs1 ?p" by (rule isdir_exists)
  then show "create_directory cwd d fs1 = (Inl AlreadyExists, fs1)"
    by (simp add: create_directory_def)
next
  assume "path_exists fs (path_join (WORKSPACE cwd) d)"
  then show "create_directory cwd d fs = (Inl AlreadyExists, fs)"
    by (simp add: create_directory_def)
next
  let ?p = "path_join (WORKSPACE cwd) d"
  assume "delete_directory cwd d fs = (Inr (), fs1)"
  then have "rmtree fs ?p = (None, fs1)"
    by (auto simp: delete_directory_def Let_def split: if_splits prod.splits option.splits)
  then have "\<not> path_exists fs1 ?p" by (rule rmtree_removes)
  then show "delete_directory cwd d fs1 = (Inl NotFound, fs1)"
    by (simp add: delete_directory_def)
qed



theorem create_or_delete_directory_twice_witness:
  "create_directory ''/srv'' ''p/q'' example_fs
     = (Inr (), snd (create_directory ''/srv'' ''p/q'' example_fs))
   \<and> snd (makedirs_split (path_join (WORKSPACE ''/srv'') ''p/q'')) \<noteq> ''.''
   \<and> create_directory ''/srv'' ''p/q'' (snd (create_directory ''/srv'' ''p/q'' example_fs))
     = (Inl AlreadyExists, snd (create_directory ''/srv'' ''p/q'' example_fs))
   \<and> path_exists example_fs (path_join (WORKSPACE ''/srv'') ''a.txt'')
   \<and> create_directory ''/srv'' ''a.txt'' example_fs = (Inl AlreadyExists, example_fs)
   \<and> delete_directory ''/srv'' ''sub'' example_fs
     = (Inr (), snd (delete_directory ''/srv'' ''sub'' example_fs))
   \<and> delete_directory ''/srv'' ''sub'' (snd (delete_directory ''/srv'' ''sub'' example_fs))
     = (Inl NotFound, snd (delete_directory ''/srv'' ''sub'' example_fs))"
proof -
  let ?c = "snd (create_directory ''/srv'' ''p/q'' example_fs)"
  let ?d = "snd (delete_directory ''/srv'' ''sub'' example_fs)"
  have 1: "create_directory ''/srv'' ''p/q'' example_fs = (Inr (), ?c)"
    by code_simp
  have 2: "snd (makedirs_split (path_join (WORKSPACE ''/srv'') ''p/q'')) \<noteq> ''.''"
    by code_simp
  have 3: "path_exists example_fs (path_join (WORKSPACE ''/srv'') ''a.txt'')"
    by code_simp
  have 4: "delete_directory ''/srv'' ''sub'' example_fs = (Inr (), ?d)"
    by code_simp
  from create_or_delete_directory_twice [of "''/srv''" "''p/q''" example_fs ?c] 1 2
  have 5: "create_directory ''/srv'' ''p/q'' ?c = (Inl AlreadyExists, ?c)"
    by blast
  from create_or_delete_directory_twice [of "''/srv''" "''a.txt''" example_fs ?c] 3
  have 6: "create_directory ''/srv'' ''a.txt'' example_fs = (Inl AlreadyExists, example_fs)"
    by blast
  from create_or_delete_directory_twice [of "''/srv''" "''sub''" example_fs ?d] 4
  have 7: "delete_directory ''/srv'' ''sub'' ?d = (Inl NotFound, ?d)"
    by blast
  from 1 2 3 4 5 6 7 show ?thesis by blast
qed



text \<open>
  C7 as stated fails where the first call does not succeed: below a regular file
  \<open>create_directory\<close> fails twice with an error of the system, and on the workspace
  root, an existing directory, \<open>delete_directory\<close> fails twice with PermissionDenied.
\<close>

theorem create_or_delete_directory_twice_counterexample:
  "create_directory ''/srv'' ''a.txt/x'' example_fs = (Inl (Sys OtherOSError), example_fs)
   \<and> fst (create_directory ''/srv'' ''a.txt/x''
            (snd (create_directory ''/srv'' ''a.txt/x'' example_fs))) \<noteq> Inl AlreadyExists
   \<and> isdir example_fs (path_join (WORKSPACE ''/srv'') ''.'')
   \<and> delete_directory ''/srv'' ''.'' example_fs = (Inl PermissionDenied, example_fs)
   \<and> fst (delete_directory ''/srv'' ''.''
            (snd (delete_directory ''/srv'' ''.'' example_fs))) \<noteq> Inl NotFound"
  by code_simp

text \<open>
  The condition on the last component: \<open>makedirs\<close> returns early for a tail \<open>.\<close> after
  swallowing a \<open>FileExistsError\<close> of the head, so \<open>create_directory\<close> can report success
  for a path that does not exist afterwards.
\<close>

lemma create_directory_dot_after_file:
  "fst (create_directory ''/srv'' ''x/../a.txt/.'' example_fs) = Inr ()
   \<and> fst (create_directory ''/srv'' ''x/../a.txt/.''
            (snd (create_directory ''/srv'' ''x/../a.txt/.'' example_fs)))
       = Inl (Sys OtherOSError)"
  by code_simp

subsection \<open>Listing a directory\<close>







text \<open>A directory that was just created lists as the empty sequence.\<close>

lemma list_files_empty_directory:
  "list_files ''/srv'' ''fresh'' (snd (create_directory ''/srv'' ''fresh'' example_fs))
   = (Inr [], snd (create_directory ''/srv'' ''fresh'' example_fs))"
  by code_simp

subsection \<open>Finding files by suffix\<close>





subsection \<open>Searching file contents\<close>




text \<open>
  Case is folded as \<open>str.lower\<close> folds it, also for the capitals of Latin-1: the query
  that begins with U+00E9 finds the word in \<open>u.txt\<close>, which begins with U+00C9.
\<close>

lemma search_files_latin1_capital:
  "search_files ''/srv'' [CHR 0xE9, CHR ''c'', CHR ''o'', CHR ''l'', CHR ''e''] [] search_fs
     = (Inr [(''u.txt'', 1)], search_fs)
   \<and> lower [CHR 0xC0, CHR 0xC9, CHR 0xD6, CHR 0xD7, CHR 0xD8, CHR 0xDE, CHR 0xDF, CHR 0xFF]
     = [CHR 0xE0, CHR 0xE9, CHR 0xF6, CHR 0xD7, CHR 0xF8, CHR 0xFE, CHR 0xDF, CHR 0xFF]
   \<and> lower ''AZaz[@'' = ''azaz[@''"
  by code_simp

end
